(* ===== verification/Prelude.thy ===== *)
theory Prelude
  imports Main "HOL-Library.Word" "HOL-Library.Monad_Syntax"
begin

text \<open>
  The prelude of the development: the fixed-width integer types of \<^verbatim>\<open>include/types.h\<close>,
  the collections that the component theories extend, and the generic facts on words,
  lists and options that several components share.

  C integers are machine words. \<open>u8\<close>, \<open>u16\<close>, \<open>u32\<close> and \<open>u64\<close> stand for
  \<^verbatim>\<open>uint8_t\<close> to \<^verbatim>\<open>uint64_t\<close>; a signed C integer is the same word read through \<open>sint\<close>
  where the code compares it as signed. The status that a kernel function returns
  (0 or a negative error code) is an \<open>int\<close>, since the code never computes with it.

  A function that may stop the machine (\<^verbatim>\<open>panic\<close>, a failed \<^verbatim>\<open>assert\<close>) returns an
  \<open>option\<close>: \<open>None\<close> is the panic, and the monad syntax of the library threads it.
\<close>

unbundle bit_operations_syntax

type_synonym u8 = "8 word"
type_synonym u16 = "16 word"
type_synonym u32 = "32 word"
type_synonym u64 = "64 word"

named_theorems bits "bit-level readings of the masks and shifts of the code"
named_theorems layout "values of the constants of the code"
named_theorems frame "what an operation leaves unchanged"

subsection \<open>Guards\<close>

text \<open>\<open>guard b\<close> continues when \<open>b\<close> holds and panics otherwise.\<close>

definition guard :: "bool \<Rightarrow> unit option" where
  "guard b = (if b then Some () else None)"

lemma guard_True [simp]: "guard True = Some ()"
  by (simp add: guard_def)

lemma guard_False [simp]: "guard False = None"
  by (simp add: guard_def)

lemma guard_eq_Some [simp]: "guard b = Some u \<longleftrightarrow> b"
  by (simp add: guard_def)

lemma guard_bind_Some [simp]: "(guard b \<bind> f = Some r) \<longleftrightarrow> b \<and> f () = Some r"
  by (simp add: guard_def)

subsection \<open>Words\<close>

lemma unat_of_nat_u32 [simp]: "n < 2 ^ 32 \<Longrightarrow> unat (of_nat n :: u32) = n"
  by (simp add: unat_of_nat take_bit_nat_eq_self)

lemma word_unat_eqI: "unat x = unat y \<Longrightarrow> x = y"
  by (simp add: word_unat_eq_iff)

lemma unat_less_2p32: "unat (x :: u32) < 2 ^ 32"
  using unsigned_less [of x, where ?'a = nat] by simp

lemma unat_add_no_wrap: "unat x + unat y < 2 ^ 32 \<Longrightarrow> unat (x + y :: u32) = unat x + unat y"
  by (simp add: unat_word_ariths)

lemma unat_sub_no_wrap: "unat y \<le> unat x \<Longrightarrow> unat (x - y :: u32) = unat x - unat y"
  by (simp add: unat_sub word_le_nat_alt)

lemma word_less_bit: "x < 2 ^ n \<Longrightarrow> n < LENGTH('a) \<Longrightarrow> bit (x :: 'a :: len word) k \<Longrightarrow> k < n"
  by (metis bit_take_bit_iff less_mask_eq take_bit_eq_mask)

subsection \<open>Lists\<close>

lemma find_index_Some_nth:
  "List.find P xs = Some x \<Longrightarrow> x \<in> set xs \<and> P x"
  by (auto simp: find_Some_iff in_set_conv_nth)

subsection \<open>Loops over a list\<close>

text \<open>\<open>mfold f xs s\<close> runs \<open>f\<close> on each element in turn and stops at the first panic.\<close>

fun mfold :: "('a \<Rightarrow> 's \<Rightarrow> 's option) \<Rightarrow> 'a list \<Rightarrow> 's \<Rightarrow> 's option" where
  "mfold f [] s = Some s"
| "mfold f (x # xs) s = do { s \<leftarrow> f x s; mfold f xs s }"

lemma mfold_append: "mfold f (xs @ ys) s = do { s \<leftarrow> mfold f xs s; mfold f ys s }"
  by (induction xs arbitrary: s) (auto split: bind_split)

lemma mfold_inv:
  assumes "P s" and "\<And>x s. x \<in> set xs \<Longrightarrow> P s \<Longrightarrow> \<exists>s'. f x s = Some s' \<and> P s'"
  shows "\<exists>s'. mfold f xs s = Some s' \<and> P s'"
  using assms by (induction xs arbitrary: s) fastforce+

end
