(* ===== verification/Mmu.thy ===== *)
theory Mmu
  imports Prelude
begin

text \<open>
  Linear addresses, page-table entries and the memory layout: the macros of
  \<^verbatim>\<open>include/types.h\<close>, \<^verbatim>\<open>include/mmu.h\<close>, \<^verbatim>\<open>include/memlayout.h\<close> and the address
  conversions of \<^verbatim>\<open>include/kernel/pmap.h\<close>, on 32-bit words as the code has them. The lemmas
  read each macro as arithmetic on \<open>nat\<close>, show that a linear address is determined by its
  directory index, table index and offset, and say when rounding does not wrap.
\<close>

subsection \<open>Constants\<close>

abbreviation (input) "PGSIZE \<equiv> (4096 :: u32)"
abbreviation (input) "PTSIZE \<equiv> (4194304 :: u32)"
abbreviation (input) "NPDENTRIES \<equiv> (1024 :: nat)"
abbreviation (input) "NPTENTRIES \<equiv> (1024 :: nat)"

abbreviation (input) "PTE_P \<equiv> (0x001 :: u32)"
abbreviation (input) "PTE_W \<equiv> (0x002 :: u32)"
abbreviation (input) "PTE_U \<equiv> (0x004 :: u32)"
abbreviation (input) "PTE_PWT \<equiv> (0x008 :: u32)"
abbreviation (input) "PTE_PCD \<equiv> (0x010 :: u32)"
abbreviation (input) "PTE_PS \<equiv> (0x080 :: u32)"
abbreviation (input) "PTE_COW \<equiv> (0x800 :: u32)"
abbreviation (input) "PTE_AVAIL \<equiv> (0xE00 :: u32)"
abbreviation (input) "PTE_SYSCALL \<equiv> (0xE07 :: u32)"

text \<open>\<^verbatim>\<open>include/memlayout.h\<close>; each address is written as its macro computes it.\<close>

definition KERNBASE :: u32 where [layout]: "KERNBASE = 0xF0000000"
definition IOPHYSMEM :: u32 where [layout]: "IOPHYSMEM = 0x0A0000"
definition EXTPHYSMEM :: u32 where [layout]: "EXTPHYSMEM = 0x100000"
definition KSTACKTOP :: u32 where [layout]: "KSTACKTOP = KERNBASE"
definition KSTKSIZE :: u32 where [layout]: "KSTKSIZE = 8 * PGSIZE"
definition KSTKGAP :: u32 where [layout]: "KSTKGAP = 8 * PGSIZE"
definition MMIOLIM :: u32 where [layout]: "MMIOLIM = KSTACKTOP - PTSIZE"
definition MMIOBASE :: u32 where [layout]: "MMIOBASE = MMIOLIM - PTSIZE"
definition ULIM :: u32 where [layout]: "ULIM = MMIOBASE"
definition UVPT :: u32 where [layout]: "UVPT = ULIM - PTSIZE"
definition UPAGES :: u32 where [layout]: "UPAGES = UVPT - PTSIZE"
definition UENVS :: u32 where [layout]: "UENVS = UPAGES - PTSIZE"
definition UTOP :: u32 where [layout]: "UTOP = UENVS"
definition UXSTACKTOP :: u32 where [layout]: "UXSTACKTOP = UTOP"
definition USTACKTOP :: u32 where [layout]: "USTACKTOP = UTOP - 2 * PGSIZE"
definition USTKSIZE :: u32 where [layout]: "USTKSIZE = 8 * PGSIZE"
definition MPENTRY_PADDR :: u32 where [layout]: "MPENTRY_PADDR = 0x7000"

subsection \<open>Macros\<close>

definition PGNUM :: "u32 \<Rightarrow> u32" where
  "PGNUM la = drop_bit 12 la"

definition PDX :: "u32 \<Rightarrow> u32" where
  "PDX la = drop_bit 22 la AND 0x3FF"

definition PTX :: "u32 \<Rightarrow> u32" where
  "PTX la = drop_bit 12 la AND 0x3FF"

definition PGOFF :: "u32 \<Rightarrow> u32" where
  "PGOFF la = la AND 0xFFF"

definition PGADDR :: "u32 \<Rightarrow> u32 \<Rightarrow> u32 \<Rightarrow> u32" where
  "PGADDR d t off = push_bit 22 d OR push_bit 12 t OR off"

definition PTE_ADDR :: "u32 \<Rightarrow> u32" where
  "PTE_ADDR pte = pte AND NOT 0xFFF"

definition ROUNDDOWN :: "u32 \<Rightarrow> u32 \<Rightarrow> u32" where
  "ROUNDDOWN a n = a - a mod n"

definition ROUNDUP :: "u32 \<Rightarrow> u32 \<Rightarrow> u32" where
  "ROUNDUP a n = ROUNDDOWN (a + n - 1) n"

text \<open>
  The test \<^verbatim>\<open>x & flag\<close> of the code, and the address conversions of \<^verbatim>\<open>pmap.h\<close>.
  A pointer into the \<^verbatim>\<open>pages\<close> array is its index; \<open>paddr\<close> and \<open>kaddr\<close> panic on
  addresses outside their range.
\<close>

definition has :: "u32 \<Rightarrow> u32 \<Rightarrow> bool" where
  "has x flag = (x AND flag \<noteq> 0)"

definition paddr :: "u32 \<Rightarrow> u32 option" where
  "paddr kva = (if kva < KERNBASE then None else Some (kva - KERNBASE))"

definition kaddr :: "nat \<Rightarrow> u32 \<Rightarrow> u32 option" where
  "kaddr npg pa = (if npg \<le> unat (PGNUM pa) then None else Some (pa + KERNBASE))"

definition page2pa :: "nat \<Rightarrow> u32" where
  "page2pa pp = push_bit 12 (of_nat pp)"

definition pa2page :: "nat \<Rightarrow> u32 \<Rightarrow> nat option" where
  "pa2page npg pa = (if npg \<le> unat (PGNUM pa) then None else Some (unat (PGNUM pa)))"

subsection \<open>Masks, bit by bit\<close>

lemma bit_0x3FF [bits]: "bit (0x3FF :: u32) n \<longleftrightarrow> n < 10"
proof -
  have m: "(0x3FF :: u32) = mask 10" by (simp add: mask_eq_exp_minus_1)
  have "bit (mask 10 :: u32) n \<longleftrightarrow> n < 10" by (auto simp: bit_simps)
  then show ?thesis by (simp only: m)
qed

lemma bit_0xFFF [bits]: "bit (0xFFF :: u32) n \<longleftrightarrow> n < 12"
proof -
  have m: "(0xFFF :: u32) = mask 12" by (simp add: mask_eq_exp_minus_1)
  have "bit (mask 12 :: u32) n \<longleftrightarrow> n < 12" by (auto simp: bit_simps)
  then show ?thesis by (simp only: m)
qed

lemma bit_PTE_ADDR [bits]: "bit (PTE_ADDR x) n \<longleftrightarrow> 12 \<le> n \<and> bit x n"
  by (simp only: PTE_ADDR_def bit_and_iff bit_not_iff bits) (auto dest: bit_imp_le_length)

lemma bit_PGOFF [bits]: "bit (PGOFF x) n \<longleftrightarrow> n < 12 \<and> bit x n"
  by (simp only: PGOFF_def bit_and_iff bits) auto

lemma bit_PGNUM [bits]: "bit (PGNUM x) n \<longleftrightarrow> bit x (12 + n)"
  by (simp add: PGNUM_def bit_simps)

lemma bit_PDX [bits]: "bit (PDX x) n \<longleftrightarrow> n < 10 \<and> bit x (22 + n)"
  by (simp only: PDX_def bit_and_iff bits bit_drop_bit_eq o_def) auto

lemma bit_PTX [bits]: "bit (PTX x) n \<longleftrightarrow> n < 10 \<and> bit x (12 + n)"
  by (simp only: PTX_def bit_and_iff bits bit_drop_bit_eq o_def) auto

lemma bit_flags: "x < 4096 \<Longrightarrow> bit (x :: u32) n \<Longrightarrow> n < 12"
  using word_less_bit [of x 12 n] by simp

lemma bit_index: "x < 1024 \<Longrightarrow> bit (x :: u32) n \<Longrightarrow> n < 10"
  using word_less_bit [of x 10 n] by simp

subsection \<open>The macros as arithmetic\<close>

lemma mask_mod: "unat (x AND mask n :: u32) = unat x mod 2 ^ n"
  by (subst take_bit_eq_mask [symmetric], subst unsigned_take_bit_eq) (rule take_bit_eq_mod)

lemma unat_drop_bit_div: "unat (drop_bit n x :: u32) = unat x div 2 ^ n"
  by (subst unat_drop_bit_eq) (rule drop_bit_eq_div)

lemma unat_PGNUM: "unat (PGNUM la) = unat la div 4096"
  by (simp add: PGNUM_def unat_drop_bit_div)

lemma unat_PDX: "unat (PDX la) = unat la div 4194304"
proof -
  have "unat (drop_bit 22 la AND mask 10 :: u32) = unat la div 2 ^ 22 mod 2 ^ 10"
    by (simp only: mask_mod unat_drop_bit_div)
  moreover have "unat la div 2 ^ 22 < 2 ^ 10"
    using unat_less_2p32 [of la] by (simp add: less_mult_imp_div_less)
  moreover have "(0x3FF :: u32) = mask 10" by (simp add: mask_eq_exp_minus_1)
  ultimately show ?thesis by (simp add: PDX_def)
qed

lemma unat_PTX: "unat (PTX la) = unat la div 4096 mod 1024"
proof -
  have "unat (drop_bit 12 la AND mask 10 :: u32) = unat la div 2 ^ 12 mod 2 ^ 10"
    by (simp only: mask_mod unat_drop_bit_div)
  moreover have "(0x3FF :: u32) = mask 10" by (simp add: mask_eq_exp_minus_1)
  ultimately show ?thesis by (simp add: PTX_def)
qed

lemma unat_PGOFF: "unat (PGOFF la) = unat la mod 4096"
proof -
  have "unat (la AND mask 12 :: u32) = unat la mod 2 ^ 12" by (rule mask_mod)
  moreover have "(0xFFF :: u32) = mask 12" by (simp add: mask_eq_exp_minus_1)
  ultimately show ?thesis by (simp add: PGOFF_def)
qed

lemma PDX_less [simp]: "unat (PDX la) < 1024"
  using unat_less_2p32 [of la] by (simp add: unat_PDX less_mult_imp_div_less)

lemma PTX_less [simp]: "unat (PTX la) < 1024"
  by (simp add: unat_PTX)

lemma PGADDR_split: "PGADDR (PDX la) (PTX la) (PGOFF la) = la"
proof (rule bit_word_eqI)
  fix n assume "n < LENGTH(32)"
  then consider "n < 12" | "12 \<le> n" "n < 22" | "22 \<le> n" "n < 32" by force
  then show "bit (PGADDR (PDX la) (PTX la) (PGOFF la)) n = bit la n"
    by cases (auto simp: PGADDR_def bit_or_iff bit_push_bit_iff bits)
qed

lemma PDX_PGADDR: "d < 1024 \<Longrightarrow> t < 1024 \<Longrightarrow> off < 4096 \<Longrightarrow> PDX (PGADDR d t off) = d"
  by (rule bit_word_eqI)
    (auto simp: PGADDR_def bit_or_iff bit_push_bit_iff bits dest: bit_index bit_flags)

lemma PTX_PGADDR: "d < 1024 \<Longrightarrow> t < 1024 \<Longrightarrow> off < 4096 \<Longrightarrow> PTX (PGADDR d t off) = t"
  by (rule bit_word_eqI)
    (auto simp: PGADDR_def bit_or_iff bit_push_bit_iff bits dest: bit_index bit_flags)

lemma PGOFF_PGADDR: "d < 1024 \<Longrightarrow> t < 1024 \<Longrightarrow> off < 4096 \<Longrightarrow> PGOFF (PGADDR d t off) = off"
  by (rule bit_word_eqI)
    (auto simp: PGADDR_def bit_or_iff bit_push_bit_iff bits dest: bit_index bit_flags)

lemma PGNUM_eq_iff: "PGNUM a = PGNUM b \<longleftrightarrow> PDX a = PDX b \<and> PTX a = PTX b"
proof -
  have "unat (PGNUM x) = unat (PDX x) * 1024 + unat (PTX x)" for x
    by (simp add: unat_PGNUM unat_PDX unat_PTX div_mult2_eq [of _ 4096 1024, simplified])
  moreover have "unat (PGNUM a) = unat (PGNUM b) \<longrightarrow>
      unat (PDX a) = unat (PDX b) \<and> unat (PTX a) = unat (PTX b)"
    by (simp add: unat_PGNUM unat_PDX unat_PTX div_mult2_eq [of _ 4096 1024, simplified])
  ultimately show ?thesis by (auto simp: word_unat_eq_iff)
qed

subsection \<open>Entries: the frame address and the flags\<close>

lemma bit_page2pa [bits]:
  "pp < 2 ^ 20 \<Longrightarrow> bit (page2pa pp) n \<longleftrightarrow> 12 \<le> n \<and> n < 32 \<and> bit pp (n - 12)"
  by (auto simp: page2pa_def bit_simps bit_push_bit_iff)

lemma PTE_ADDR_entry: "fl < 4096 \<Longrightarrow> PTE_ADDR (page2pa pp OR fl) = page2pa pp"
  by (rule bit_word_eqI) (auto simp: bits bit_or_iff page2pa_def bit_push_bit_iff dest: bit_flags)

lemma unat_page2pa: "pp < 2 ^ 20 \<Longrightarrow> unat (page2pa pp) = pp * 4096"
proof -
  assume pp: "pp < 2 ^ 20"
  have "page2pa pp = of_nat (pp * 4096)"
    by (simp add: page2pa_def push_bit_eq_mult mult.commute)
  with pp show ?thesis by (simp only: unat_of_nat) (simp add: take_bit_nat_eq_self)
qed

lemma PGNUM_page2pa: "pp < 2 ^ 20 \<Longrightarrow> unat (PGNUM (page2pa pp)) = pp"
  by (simp add: unat_PGNUM unat_page2pa)

lemma PGNUM_entry: "fl < 4096 \<Longrightarrow> pp < 2 ^ 20 \<Longrightarrow> unat (PGNUM (page2pa pp OR fl)) = pp"
proof -
  assume fl: "fl < 4096" and pp: "pp < 2 ^ 20"
  have "PGNUM (page2pa pp OR fl) = PGNUM (page2pa pp)"
    by (rule bit_word_eqI) (auto simp: bits bit_or_iff dest: bit_flags [OF fl])
  with pp show ?thesis by (simp add: PGNUM_page2pa)
qed

lemma PGNUM_PTE_ADDR [simp]: "PGNUM (PTE_ADDR x) = PGNUM x"
  by (rule bit_word_eqI) (auto simp: bits)

lemma flags_or: "a < 4096 \<Longrightarrow> b < 4096 \<Longrightarrow> (a OR b :: u32) < 4096"
proof -
  assume "a < 4096" "b < 4096"
  then have "take_bit 12 a = a" "take_bit 12 b = b"
    by (simp_all add: take_bit_eq_mask less_mask_eq)
  then have "(a OR b) AND mask 12 = a OR b"
    by (simp flip: take_bit_eq_mask)
  then have "unat (a OR b) = unat (a OR b) mod 2 ^ 12" by (metis mask_mod)
  then have "unat (a OR b) < 2 ^ 12" by (metis mod_less_divisor zero_less_numeral zero_less_power)
  then show ?thesis by (simp add: word_less_nat_alt)
qed

lemma has_or [simp]: "has (a OR b) f \<longleftrightarrow> has a f \<or> has b f"
  by (simp add: has_def bit.conj_disj_distrib2 or_eq_0_iff)

lemma has_bit0 [bits]: "has x PTE_P \<longleftrightarrow> bit x 0"
  by (simp add: has_def and_one_eq bit_0 odd_iff_mod_2_eq_one)

lemma has_bit1 [bits]: "has x PTE_W \<longleftrightarrow> bit x 1"
proof -
  have "x AND 2 = push_bit 1 (of_bool (bit x 1))"
    by (rule bit_word_eqI) (auto simp: bit_and_iff bit_push_bit_iff bit_2_iff bit_of_bool_iff)
  then show ?thesis by (simp add: has_def)
qed

lemma pa2page_page2pa [simp]: "pp < npg \<Longrightarrow> npg \<le> 2 ^ 20 \<Longrightarrow> pa2page npg (page2pa pp) = Some pp"
  by (simp add: pa2page_def PGNUM_page2pa)

lemma pa2page_entry [simp]:
  "pp < npg \<Longrightarrow> npg \<le> 2 ^ 20 \<Longrightarrow> fl < 4096 \<Longrightarrow> pa2page npg (page2pa pp OR fl) = Some pp"
  by (simp add: pa2page_def PGNUM_entry)

lemma pa2page_PTE_ADDR [simp]: "pa2page npg (PTE_ADDR e) = pa2page npg e"
  by (simp add: pa2page_def)

lemma pa2page_less: "pa2page npg pa = Some pp \<Longrightarrow> pp < npg"
  by (auto simp: pa2page_def split: if_splits)

subsection \<open>Rounding\<close>

lemma unat_ROUNDDOWN: "unat (ROUNDDOWN a n) = unat a div unat n * unat n"
proof -
  have "unat (a mod n) \<le> unat a" by (simp add: unat_mod_distrib)
  then have "unat (ROUNDDOWN a n) = unat a - unat a mod unat n"
    by (simp add: ROUNDDOWN_def unat_sub_no_wrap unat_mod_distrib)
  then show ?thesis by (simp add: minus_mod_eq_div_mult)
qed

lemma ROUNDDOWN_le: "unat (ROUNDDOWN a n) \<le> unat a"
  by (simp add: unat_ROUNDDOWN)

lemma ROUNDDOWN_dvd: "unat n dvd unat (ROUNDDOWN a n)"
  by (simp add: unat_ROUNDDOWN)

lemma unat_ROUNDUP:
  assumes "0 < unat n" and "unat a + unat n \<le> 2 ^ 32"
  shows "unat (ROUNDUP a n) = (unat a + unat n - 1) div unat n * unat n"
proof -
  have "unat (n - 1) = unat n - 1" using assms(1) by (simp add: unat_sub_no_wrap)
  with assms have "unat (a + (n - 1)) = unat a + unat n - 1"
    by (subst unat_add_no_wrap) auto
  then show ?thesis by (simp add: ROUNDUP_def unat_ROUNDDOWN add_diff_eq)
qed

text \<open>The address conversions are inverse to each other below 256 MB of memory.\<close>

lemma paddr_kaddr:
  assumes "npg \<le> 65536" and "kaddr npg pa = Some kva"
  shows "paddr kva = Some pa"
proof -
  from assms(2) have "unat pa div 4096 < npg" and kva: "kva = pa + KERNBASE"
    by (auto simp: kaddr_def unat_PGNUM split: if_splits)
  with assms(1) have "unat pa div 4096 < 65536" by linarith
  then have "unat pa < 65536 * 4096" by (simp add: div_less_iff_less_mult)
  then have "unat (pa + KERNBASE) = unat pa + unat KERNBASE"
    by (subst unat_add_no_wrap) (simp_all add: layout)
  then have "\<not> kva < KERNBASE" by (simp add: kva word_less_nat_alt)
  then show ?thesis by (simp add: paddr_def kva)
qed

end
