(* ===== verification/Kernel_State.thy ===== *)
theory Kernel_State
  imports Mmu
begin

text \<open>
  The state of the kernel: the structures of \<^verbatim>\<open>include/memlayout.h\<close>, \<^verbatim>\<open>include/trap.h\<close>,
  \<^verbatim>\<open>include/vm.h\<close>, \<^verbatim>\<open>include/env.h\<close>, \<^verbatim>\<open>include/kernel/cpu.h\<close> and
  \<^verbatim>\<open>include/kernel/spinlock.h\<close> as records, and one record \<open>kstate\<close> for the global variables.

  Pointers into the arrays \<^verbatim>\<open>pages\<close>, \<^verbatim>\<open>envs\<close> and \<^verbatim>\<open>cpus\<close> are indices, and a pointer
  that may be \<^verbatim>\<open>NULL\<close> is an \<open>option\<close>. Physical memory is a function from the frame number and
  the index of a 32-bit word in that frame (0 to 1023) to the word. A \<^verbatim>\<open>pde_t *\<close> is the
  number of the frame that holds the directory, and a \<^verbatim>\<open>pte_t *\<close> is a frame and a word index.

  The state also holds the parts of the running processor that the code reads or writes: its
  number, the frame loaded in \<^verbatim>\<open>cr3\<close>, and the translations its TLB has cached.
\<close>

subsection \<open>Error codes\<close>

abbreviation (input) "E_UNSPECIFIED \<equiv> (1 :: int)"
abbreviation (input) "E_BAD_ENV \<equiv> (2 :: int)"
abbreviation (input) "E_INVAL \<equiv> (3 :: int)"
abbreviation (input) "E_NO_MEM \<equiv> (4 :: int)"
abbreviation (input) "E_NO_FREE_ENV \<equiv> (5 :: int)"
abbreviation (input) "E_FAULT \<equiv> (6 :: int)"
abbreviation (input) "E_IPC_NOT_RECV \<equiv> (7 :: int)"
abbreviation (input) "E_EOF \<equiv> (8 :: int)"
abbreviation (input) "E_NO_DISK \<equiv> (9 :: int)"
abbreviation (input) "E_MAX_OPEN \<equiv> (10 :: int)"
abbreviation (input) "E_NOT_FOUND \<equiv> (11 :: int)"
abbreviation (input) "E_BAD_PATH \<equiv> (12 :: int)"
abbreviation (input) "E_FILE_EXISTS \<equiv> (13 :: int)"
abbreviation (input) "E_NOT_EXEC \<equiv> (14 :: int)"
abbreviation (input) "E_NOT_SUPP \<equiv> (15 :: int)"

subsection \<open>Structures\<close>

record page_info =
  pp_link :: "nat option"
  pp_ref :: u16

record push_regs =
  reg_edi :: u32
  reg_esi :: u32
  reg_ebp :: u32
  reg_oesp :: u32
  reg_ebx :: u32
  reg_edx :: u32
  reg_ecx :: u32
  reg_eax :: u32

record trapframe =
  tf_regs :: push_regs
  tf_es :: u16
  tf_ds :: u16
  tf_trapno :: u32
  tf_err :: u32
  tf_eip :: u32
  tf_cs :: u16
  tf_eflags :: u32
  tf_esp :: u32
  tf_ss :: u16

record vm_area =
  vm_start :: u32
  vm_size :: u32
  vm_page_prot :: u32

datatype env_status = ENV_FREE | ENV_DYING | ENV_RUNNABLE | ENV_RUNNING | ENV_NOT_RUNNABLE

datatype env_type = ENV_TYPE_USER | ENV_TYPE_FS | ENV_TYPE_NS

record env =
  env_tf :: trapframe
  env_link :: "nat option"
  env_id :: u32
  env_parent_id :: u32
  env_type :: env_type
  env_status :: env_status
  env_runs :: u32
  env_cpunum :: nat
  env_pgdir :: "nat option"
  vma_valid :: nat
  vma :: "nat \<Rightarrow> vm_area"
  env_pgfault_upcall :: u32
  env_ipc_recving :: bool
  env_ipc_dstva :: u32
  env_ipc_value :: u32
  env_ipc_from :: u32
  env_ipc_perm :: u32
  currentpath :: "u8 list"
  binaryname :: "u8 list"

datatype cpu_status = CPU_UNUSED | CPU_STARTED | CPU_HALTED

record cpu_info =
  cpu_status :: cpu_status
  cpu_env :: "nat option"

record spinlock =
  locked :: u32
  lock_cpu :: "nat option"

record kstate =
  npages :: nat
  npages_basemem :: nat
  kern_pgdir :: nat
  pages :: "nat \<Rightarrow> page_info"
  page_free_list :: "nat option"
  mem :: "nat \<Rightarrow> nat \<Rightarrow> u32"
  nextfree :: u32
  mmio_base :: u32
  user_mem_check_addr :: u32
  envs :: "nat \<Rightarrow> env"
  env_free_list :: "nat option"
  cpus :: "nat \<Rightarrow> cpu_info"
  kernel_lock :: spinlock
  cpunum :: nat
  cr3 :: nat
  tlb :: "u32 \<rightharpoonup> u32"

subsection \<open>Access paths\<close>

text \<open>
  The assignments \<^verbatim>\<open>pages[i].f = v\<close>, \<^verbatim>\<open>envs[i].f = v\<close> and \<^verbatim>\<open>*pte = v\<close>, the macros
  \<^verbatim>\<open>thiscpu\<close> and \<^verbatim>\<open>curenv\<close>, and the instructions \<^verbatim>\<open>lcr3\<close> and \<^verbatim>\<open>invlpg\<close>: loading
  \<^verbatim>\<open>cr3\<close> drops every cached translation, \<^verbatim>\<open>invlpg\<close> that of one page.
\<close>

definition page_upd :: "nat \<Rightarrow> (page_info \<Rightarrow> page_info) \<Rightarrow> kstate \<Rightarrow> kstate" where
  "page_upd pp f s = s\<lparr>pages := (pages s)(pp := f (pages s pp))\<rparr>"

definition env_upd :: "nat \<Rightarrow> (env \<Rightarrow> env) \<Rightarrow> kstate \<Rightarrow> kstate" where
  "env_upd e f s = s\<lparr>envs := (envs s)(e := f (envs s e))\<rparr>"

definition mem_set :: "nat \<Rightarrow> nat \<Rightarrow> u32 \<Rightarrow> kstate \<Rightarrow> kstate" where
  "mem_set f i v s = s\<lparr>mem := (mem s)(f := (mem s f)(i := v))\<rparr>"

definition mem_zero :: "nat \<Rightarrow> kstate \<Rightarrow> kstate" where
  "mem_zero f s = s\<lparr>mem := (mem s)(f := (\<lambda>_. 0))\<rparr>"

definition curenv :: "kstate \<Rightarrow> nat option" where
  "curenv s = cpu_env (cpus s (cpunum s))"

definition set_curenv :: "nat option \<Rightarrow> kstate \<Rightarrow> kstate" where
  "set_curenv e s = s\<lparr>cpus := (cpus s)(cpunum s := (cpus s (cpunum s))\<lparr>cpu_env := e\<rparr>)\<rparr>"

definition lcr3 :: "nat \<Rightarrow> kstate \<Rightarrow> kstate" where
  "lcr3 f s = s\<lparr>cr3 := f, tlb := Map.empty\<rparr>"

definition invlpg :: "u32 \<Rightarrow> kstate \<Rightarrow> kstate" where
  "invlpg va s = s\<lparr>tlb := (tlb s)(PGNUM va := None)\<rparr>"

subsection \<open>Field by field\<close>

text \<open>What each access path leaves unchanged, and what it writes.\<close>

lemma page_upd_fields [simp]:
  "npages (page_upd p f s) = npages s"
  "npages_basemem (page_upd p f s) = npages_basemem s"
  "kern_pgdir (page_upd p f s) = kern_pgdir s"
  "pages (page_upd p f s) = (pages s)(p := f (pages s p))"
  "page_free_list (page_upd p f s) = page_free_list s"
  "mem (page_upd p f s) = mem s"
  "nextfree (page_upd p f s) = nextfree s"
  "mmio_base (page_upd p f s) = mmio_base s"
  "user_mem_check_addr (page_upd p f s) = user_mem_check_addr s"
  "envs (page_upd p f s) = envs s"
  "env_free_list (page_upd p f s) = env_free_list s"
  "cpus (page_upd p f s) = cpus s"
  "kernel_lock (page_upd p f s) = kernel_lock s"
  "cpunum (page_upd p f s) = cpunum s"
  "cr3 (page_upd p f s) = cr3 s"
  "tlb (page_upd p f s) = tlb s"
  by (simp_all add: page_upd_def)

lemma env_upd_fields [simp]:
  "npages (env_upd e g s) = npages s"
  "npages_basemem (env_upd e g s) = npages_basemem s"
  "kern_pgdir (env_upd e g s) = kern_pgdir s"
  "pages (env_upd e g s) = pages s"
  "page_free_list (env_upd e g s) = page_free_list s"
  "mem (env_upd e g s) = mem s"
  "nextfree (env_upd e g s) = nextfree s"
  "mmio_base (env_upd e g s) = mmio_base s"
  "user_mem_check_addr (env_upd e g s) = user_mem_check_addr s"
  "envs (env_upd e g s) = (envs s)(e := g (envs s e))"
  "env_free_list (env_upd e g s) = env_free_list s"
  "cpus (env_upd e g s) = cpus s"
  "kernel_lock (env_upd e g s) = kernel_lock s"
  "cpunum (env_upd e g s) = cpunum s"
  "cr3 (env_upd e g s) = cr3 s"
  "tlb (env_upd e g s) = tlb s"
  by (simp_all add: env_upd_def)

lemma mem_set_fields [simp]:
  "npages (mem_set fr i v s) = npages s"
  "npages_basemem (mem_set fr i v s) = npages_basemem s"
  "kern_pgdir (mem_set fr i v s) = kern_pgdir s"
  "pages (mem_set fr i v s) = pages s"
  "page_free_list (mem_set fr i v s) = page_free_list s"
  "mem (mem_set fr i v s) = (mem s)(fr := (mem s fr)(i := v))"
  "nextfree (mem_set fr i v s) = nextfree s"
  "mmio_base (mem_set fr i v s) = mmio_base s"
  "user_mem_check_addr (mem_set fr i v s) = user_mem_check_addr s"
  "envs (mem_set fr i v s) = envs s"
  "env_free_list (mem_set fr i v s) = env_free_list s"
  "cpus (mem_set fr i v s) = cpus s"
  "kernel_lock (mem_set fr i v s) = kernel_lock s"
  "cpunum (mem_set fr i v s) = cpunum s"
  "cr3 (mem_set fr i v s) = cr3 s"
  "tlb (mem_set fr i v s) = tlb s"
  by (simp_all add: mem_set_def)

lemma mem_zero_fields [simp]:
  "npages (mem_zero fr s) = npages s"
  "npages_basemem (mem_zero fr s) = npages_basemem s"
  "kern_pgdir (mem_zero fr s) = kern_pgdir s"
  "pages (mem_zero fr s) = pages s"
  "page_free_list (mem_zero fr s) = page_free_list s"
  "mem (mem_zero fr s) = (mem s)(fr := (\<lambda>_. 0))"
  "nextfree (mem_zero fr s) = nextfree s"
  "mmio_base (mem_zero fr s) = mmio_base s"
  "user_mem_check_addr (mem_zero fr s) = user_mem_check_addr s"
  "envs (mem_zero fr s) = envs s"
  "env_free_list (mem_zero fr s) = env_free_list s"
  "cpus (mem_zero fr s) = cpus s"
  "kernel_lock (mem_zero fr s) = kernel_lock s"
  "cpunum (mem_zero fr s) = cpunum s"
  "cr3 (mem_zero fr s) = cr3 s"
  "tlb (mem_zero fr s) = tlb s"
  by (simp_all add: mem_zero_def)

lemma set_curenv_fields [simp]:
  "npages (set_curenv e s) = npages s"
  "npages_basemem (set_curenv e s) = npages_basemem s"
  "kern_pgdir (set_curenv e s) = kern_pgdir s"
  "pages (set_curenv e s) = pages s"
  "page_free_list (set_curenv e s) = page_free_list s"
  "mem (set_curenv e s) = mem s"
  "nextfree (set_curenv e s) = nextfree s"
  "mmio_base (set_curenv e s) = mmio_base s"
  "user_mem_check_addr (set_curenv e s) = user_mem_check_addr s"
  "envs (set_curenv e s) = envs s"
  "env_free_list (set_curenv e s) = env_free_list s"
  "cpus (set_curenv e s) = (cpus s)(cpunum s := (cpus s (cpunum s))\<lparr>cpu_env := e\<rparr>)"
  "kernel_lock (set_curenv e s) = kernel_lock s"
  "cpunum (set_curenv e s) = cpunum s"
  "cr3 (set_curenv e s) = cr3 s"
  "tlb (set_curenv e s) = tlb s"
  by (simp_all add: set_curenv_def)

lemma lcr3_fields [simp]:
  "npages (lcr3 fr s) = npages s"
  "npages_basemem (lcr3 fr s) = npages_basemem s"
  "kern_pgdir (lcr3 fr s) = kern_pgdir s"
  "pages (lcr3 fr s) = pages s"
  "page_free_list (lcr3 fr s) = page_free_list s"
  "mem (lcr3 fr s) = mem s"
  "nextfree (lcr3 fr s) = nextfree s"
  "mmio_base (lcr3 fr s) = mmio_base s"
  "user_mem_check_addr (lcr3 fr s) = user_mem_check_addr s"
  "envs (lcr3 fr s) = envs s"
  "env_free_list (lcr3 fr s) = env_free_list s"
  "cpus (lcr3 fr s) = cpus s"
  "kernel_lock (lcr3 fr s) = kernel_lock s"
  "cpunum (lcr3 fr s) = cpunum s"
  "cr3 (lcr3 fr s) = fr"
  "tlb (lcr3 fr s) = Map.empty"
  by (simp_all add: lcr3_def)

lemma invlpg_fields [simp]:
  "npages (invlpg va s) = npages s"
  "npages_basemem (invlpg va s) = npages_basemem s"
  "kern_pgdir (invlpg va s) = kern_pgdir s"
  "pages (invlpg va s) = pages s"
  "page_free_list (invlpg va s) = page_free_list s"
  "mem (invlpg va s) = mem s"
  "nextfree (invlpg va s) = nextfree s"
  "mmio_base (invlpg va s) = mmio_base s"
  "user_mem_check_addr (invlpg va s) = user_mem_check_addr s"
  "envs (invlpg va s) = envs s"
  "env_free_list (invlpg va s) = env_free_list s"
  "cpus (invlpg va s) = cpus s"
  "kernel_lock (invlpg va s) = kernel_lock s"
  "cpunum (invlpg va s) = cpunum s"
  "cr3 (invlpg va s) = cr3 s"
  "tlb (invlpg va s) = (tlb s)(PGNUM va := None)"
  by (simp_all add: invlpg_def)

lemma curenv_fields [simp]:
  "curenv (page_upd p f s) = curenv s"
  "curenv (env_upd e g s) = curenv s"
  "curenv (mem_set fr i v s) = curenv s"
  "curenv (mem_zero fr s) = curenv s"
  "curenv (set_curenv x s) = x"
  "curenv (lcr3 fr s) = curenv s"
  "curenv (invlpg va s) = curenv s"
  by (simp_all add: curenv_def)

subsection \<open>Linked lists through index links\<close>

text \<open>
  \<open>links next a xs\<close> says that following \<open>next\<close> from \<open>a\<close> visits exactly \<open>xs\<close> and ends at
  \<open>NULL\<close>. Both free lists of the kernel (pages and environments) are of this form.
\<close>

primrec links :: "('a \<Rightarrow> 'a option) \<Rightarrow> 'a option \<Rightarrow> 'a list \<Rightarrow> bool" where
  "links next a [] \<longleftrightarrow> a = None"
| "links next a (x # xs) \<longleftrightarrow> a = Some x \<and> links next (next x) xs"

lemma links_None [simp]: "links next None xs \<longleftrightarrow> xs = []"
  by (cases xs) auto

lemma links_Some: "links next (Some x) xs \<longleftrightarrow> (\<exists>ys. xs = x # ys \<and> links next (next x) ys)"
  by (cases xs) auto

lemma links_fun_eq: "links next a xs \<Longrightarrow> links next a ys \<Longrightarrow> xs = ys"
  by (induction xs arbitrary: a ys) (auto simp: links_Some)

lemma links_upd [simp]: "x \<notin> set xs \<Longrightarrow> links (next(x := y)) a xs = links next a xs"
  by (induction xs arbitrary: a) auto

lemma links_cong: "(\<And>x. x \<in> set xs \<Longrightarrow> next x = next' x) \<Longrightarrow> links next a xs = links next' a xs"
  by (induction xs arbitrary: a) auto

lemma links_distinct: "links next a xs \<Longrightarrow> distinct xs"
proof (induction xs arbitrary: a)
  case (Cons x xs)
  have "x \<notin> set xs"
  proof
    assume "x \<in> set xs"
    then obtain us vs where xs: "xs = us @ x # vs" by (meson split_list)
    from Cons.prems have "links next (next x) (us @ x # vs)" by (simp add: xs)
    moreover have "links next b (us @ x # vs) \<Longrightarrow> links next (next x) vs" for b
      by (induction us arbitrary: b) auto
    ultimately have "links next (next x) vs" and "links next (next x) (us @ x # vs)" by auto
    then have "vs = us @ x # vs" by (rule links_fun_eq)
    then have "length vs = length us + Suc (length vs)" by (metis length_append length_Cons)
    then show False by simp
  qed
  with Cons show ?case by auto
qed simp

lemma links_retarget:
  "links next a (xs @ [p]) \<Longrightarrow> p \<notin> set xs \<Longrightarrow> links next' a zs \<Longrightarrow>
   (\<And>x. x \<noteq> p \<Longrightarrow> next' x = next x) \<Longrightarrow> \<exists>ws. zs = xs @ ws \<and> links next' (Some p) ws"
proof (induction xs arbitrary: a zs)
  case (Cons x xs)
  then obtain zs' where zs: "zs = x # zs'" "links next' (next x) zs'"
    by (auto simp: links_Some)
  with Cons.IH [of "next x" zs'] Cons.prems show ?case by auto
qed auto

text \<open>Pointing the last cell of a list back at its head leaves no finite list.\<close>

lemma links_cycle:
  assumes "links next a (xs @ [p])"
  shows "\<not> links (next(p := a)) (Some p) ys"
proof
  let ?n = "next(p := a)"
  assume ys: "links ?n (Some p) ys"
  then obtain zs where zs: "ys = p # zs" "links ?n a zs" by (auto simp: links_Some)
  have "p \<notin> set xs" using links_distinct [OF assms] by simp
  with links_retarget [OF assms _ zs(2)] fun_upd_other obtain ws where "zs = xs @ ws" "links ?n (Some p) ws" by auto
  with ys zs(1) have "ws = p # xs @ ws" using links_fun_eq by blast
  then have "length ws = Suc (length xs + length ws)" by (metis length_Cons length_append)
  then show False by simp
qed

subsection \<open>A concrete machine\<close>

text \<open>
  The state right after the globals are cleared, on a machine with 4 MB of memory and a kernel
  whose page directory is frame 272. The examples of the development start from it.
\<close>

definition zero_regs :: push_regs where
  "zero_regs = \<lparr>reg_edi = 0, reg_esi = 0, reg_ebp = 0, reg_oesp = 0, reg_ebx = 0, reg_edx = 0,
     reg_ecx = 0, reg_eax = 0\<rparr>"

definition zero_tf :: trapframe where
  "zero_tf = \<lparr>tf_regs = zero_regs, tf_es = 0, tf_ds = 0, tf_trapno = 0, tf_err = 0, tf_eip = 0,
     tf_cs = 0, tf_eflags = 0, tf_esp = 0, tf_ss = 0\<rparr>"

definition zero_env :: env where
  "zero_env = \<lparr>env_tf = zero_tf, env_link = None, env_id = 0, env_parent_id = 0,
     env_type = ENV_TYPE_USER, env_status = ENV_FREE, env_runs = 0, env_cpunum = 0,
     env_pgdir = None, vma_valid = 0,
     vma = (\<lambda>_. \<lparr>vm_start = 0, vm_size = 0, vm_page_prot = 0\<rparr>), env_pgfault_upcall = 0,
     env_ipc_recving = False, env_ipc_dstva = 0, env_ipc_value = 0, env_ipc_from = 0,
     env_ipc_perm = 0, currentpath = [], binaryname = []\<rparr>"

definition boot_state :: kstate where
  "boot_state = \<lparr>npages = 1024, npages_basemem = 160, kern_pgdir = 272,
     pages = (\<lambda>_. \<lparr>pp_link = None, pp_ref = 0\<rparr>), page_free_list = None, mem = (\<lambda>_ _. 0),
     nextfree = 0, mmio_base = MMIOBASE, user_mem_check_addr = 0, envs = (\<lambda>_. zero_env),
     env_free_list = None, cpus = (\<lambda>_. \<lparr>cpu_status = CPU_UNUSED, cpu_env = None\<rparr>),
     kernel_lock = \<lparr>locked = 0, lock_cpu = None\<rparr>, cpunum = 0, cr3 = 272, tlb = Map.empty\<rparr>"

lemma boot_state_fields [simp]:
  "npages boot_state = 1024"
  "npages_basemem boot_state = 160"
  "kern_pgdir boot_state = 272"
  "pages boot_state p = \<lparr>pp_link = None, pp_ref = 0\<rparr>"
  "page_free_list boot_state = None"
  "mem boot_state f i = 0"
  "nextfree boot_state = 0"
  "mmio_base boot_state = MMIOBASE"
  "envs boot_state e = zero_env"
  "env_free_list boot_state = None"
  "cpus boot_state c = \<lparr>cpu_status = CPU_UNUSED, cpu_env = None\<rparr>"
  "kernel_lock boot_state = \<lparr>locked = 0, lock_cpu = None\<rparr>"
  "cpunum boot_state = 0"
  "cr3 boot_state = 272"
  "tlb boot_state = Map.empty"
  by (simp_all add: boot_state_def)

end
