(* ===== verification/Page_Alloc.thy ===== *)
theory Page_Alloc
  imports Kernel_State
begin

text \<open>
  The physical memory of \<^verbatim>\<open>kernel/pmap.c\<close>: memory detection, the boot-time bump allocator, and
  the free list of pages with \<open>page_init\<close>, \<open>page_alloc\<close>, \<open>page_free\<close> and \<open>page_decref\<close>.
  \<open>free_ok\<close> is the invariant of the list, and \<open>free_pages\<close> the list it holds. The locale
  \<open>page_store\<close> is what the rest of the kernel relies on (a LIFO store of distinct pages), and
  its interpretation on \<open>page_alloc\<close> and \<open>page_free\<close> discharges it.
\<close>

subsection \<open>Memory detection\<close>

text \<open>
  \<open>rd\<close> is the CMOS register file that \<^verbatim>\<open>mc146818_read\<close> reads through the I/O ports;
  \<open>nvram_read\<close> joins two registers. Sizes are in kilobytes.
\<close>

definition nvram_read :: "(nat \<Rightarrow> u8) \<Rightarrow> nat \<Rightarrow> u32" where
  "nvram_read rd r = ucast (rd r) OR push_bit 8 (ucast (rd (r + 1)))"

definition i386_detect_memory :: "(nat \<Rightarrow> u8) \<Rightarrow> kstate \<Rightarrow> kstate" where
  "i386_detect_memory rd s =
    (let basemem = nvram_read rd 0x15;
         extmem = nvram_read rd 0x17;
         ext16mem = nvram_read rd 0x34 * 64;
         totalmem = (if ext16mem \<noteq> 0 then 16 * 1024 + ext16mem
                     else if extmem \<noteq> 0 then 1 * 1024 + extmem
                     else basemem);
         totalmem = (if totalmem > 256 * 1024 then 256 * 1024 else totalmem)
     in s\<lparr>npages := unat (totalmem div 4), npages_basemem := unat (basemem div 4)\<rparr>)"

subsection \<open>Boot allocator\<close>

text \<open>\<open>kend\<close> is the address of the linker symbol \<^verbatim>\<open>end\<close>.\<close>

definition boot_alloc :: "u32 \<Rightarrow> u32 \<Rightarrow> kstate \<Rightarrow> (u32 \<times> kstate) option" where
  "boot_alloc kend n s =
    (let temp = (if nextfree s = 0 then ROUNDUP kend PGSIZE else nextfree s);
         next = temp + ROUNDUP n PGSIZE
     in if next - KERNBASE > of_nat (npages s) * PGSIZE then None
        else Some (temp, s\<lparr>nextfree := next\<rparr>))"

subsection \<open>The free list\<close>

definition page_reserved :: "nat \<Rightarrow> nat \<Rightarrow> nat \<Rightarrow> nat \<Rightarrow> bool" where
  "page_reserved base iohole_pgnum allocated_pgnum i \<longleftrightarrow>
     i = 0 \<or> i = unat (PGNUM MPENTRY_PADDR) \<or>
     base \<le> i \<and> i < base + iohole_pgnum + allocated_pgnum"

definition page_init_step :: "nat \<Rightarrow> nat \<Rightarrow> nat \<Rightarrow> kstate \<Rightarrow> kstate" where
  "page_init_step iohole_pgnum allocated_pgnum i s =
    (if page_reserved (npages_basemem s) iohole_pgnum allocated_pgnum i
     then page_upd i (\<lambda>p. p\<lparr>pp_ref := 1\<rparr>) s
     else (page_upd i (\<lambda>p. p\<lparr>pp_link := page_free_list s\<rparr>) s)\<lparr>page_free_list := Some i\<rparr>)"

definition page_init :: "u32 \<Rightarrow> kstate \<Rightarrow> kstate option" where
  "page_init kend s = do {
     (a, s) \<leftarrow> boot_alloc kend 0 s;
     let allocated_pgnum = unat (PGNUM (a - KERNBASE));
     let iohole_pgnum = unat (PGNUM (EXTPHYSMEM - IOPHYSMEM));
     Some (fold (page_init_step iohole_pgnum allocated_pgnum) [0..<npages s] s)
   }"

text \<open>\<open>zero\<close> is the test \<^verbatim>\<open>alloc_flags & ALLOC_ZERO\<close>; \<^verbatim>\<open>page2kva\<close> panics out of range.\<close>

definition page_alloc :: "bool \<Rightarrow> kstate \<Rightarrow> (nat option \<times> kstate) option" where
  "page_alloc zero s =
    (case page_free_list s of
       None \<Rightarrow> Some (None, s)
     | Some pp \<Rightarrow> do {
         let s = s\<lparr>page_free_list := pp_link (pages s pp)\<rparr>;
         let s = page_upd pp (\<lambda>p. p\<lparr>pp_link := None\<rparr>) s;
         if zero then do {
           _ \<leftarrow> kaddr (npages s) (page2pa pp);
           Some (Some pp, mem_zero pp s)
         } else Some (Some pp, s)
       })"

definition page_free :: "nat \<Rightarrow> kstate \<Rightarrow> kstate option" where
  "page_free pp s =
    (if pp_ref (pages s pp) = 0 \<and> pp_link (pages s pp) = None
     then Some ((page_upd pp (\<lambda>p. p\<lparr>pp_link := page_free_list s\<rparr>) s)\<lparr>page_free_list := Some pp\<rparr>)
     else None)"

definition page_decref :: "nat \<Rightarrow> kstate \<Rightarrow> kstate option" where
  "page_decref pp s =
    (let s = page_upd pp (\<lambda>p. p\<lparr>pp_ref := pp_ref p - 1\<rparr>) s
     in if pp_ref (pages s pp) = 0 then page_free pp s else Some s)"

subsection \<open>Abstraction and invariant\<close>

fun walk :: "nat \<Rightarrow> ('a \<Rightarrow> 'a option) \<Rightarrow> 'a option \<Rightarrow> 'a list" where
  "walk (Suc n) next (Some x) = x # walk n next (next x)"
| "walk _ next _ = []"

definition page_next :: "kstate \<Rightarrow> nat \<Rightarrow> nat option" where
  "page_next s p = pp_link (pages s p)"

definition free_pages :: "kstate \<Rightarrow> nat list" where
  "free_pages s = walk (npages s) (page_next s) (page_free_list s)"

definition free_ok :: "kstate \<Rightarrow> bool" where
  "free_ok s \<longleftrightarrow> npages s \<le> 65536 \<and>
     links (page_next s) (page_free_list s) (free_pages s) \<and>
     (\<forall>p \<in> set (free_pages s). p < npages s \<and> pp_ref (pages s p) = 0) \<and>
     (\<forall>p < npages s. p \<notin> set (free_pages s) \<longrightarrow> page_next s p = None)"

lemma walk_links: "links next a xs \<Longrightarrow> length xs \<le> n \<Longrightarrow> walk n next a = xs"
proof (induction xs arbitrary: a n)
  case Nil then show ?case by (cases n) auto
next
  case (Cons x xs) then show ?case by (cases n) auto
qed

lemma bounded_length: "distinct xs \<Longrightarrow> \<forall>x \<in> set xs. x < n \<Longrightarrow> length xs \<le> (n :: nat)"
  by (metis card_lessThan card_mono distinct_card finite_lessThan lessThan_iff subsetI)

lemma free_pages_eqI:
  assumes "links (page_next s) (page_free_list s) xs" and "\<forall>p \<in> set xs. p < npages s"
  shows "free_pages s = xs"
  using assms by (auto simp: free_pages_def intro!: walk_links bounded_length dest: links_distinct)

lemma free_okI:
  assumes "npages s \<le> 65536"
    and "links (page_next s) (page_free_list s) xs"
    and "\<And>p. p \<in> set xs \<Longrightarrow> p < npages s \<and> pp_ref (pages s p) = 0"
    and "\<And>p. p < npages s \<Longrightarrow> p \<notin> set xs \<Longrightarrow> page_next s p = None"
  shows "free_ok s \<and> free_pages s = xs"
  using assms free_pages_eqI [of s xs] by (auto simp: free_ok_def)

lemma free_ok_links: "free_ok s \<Longrightarrow> links (page_next s) (page_free_list s) (free_pages s)"
  by (simp add: free_ok_def)

lemma free_ok_distinct: "free_ok s \<Longrightarrow> distinct (free_pages s)"
  by (auto dest: free_ok_links links_distinct)

lemma free_pages_cong:
  "npages s = npages t \<Longrightarrow> page_free_list s = page_free_list t \<Longrightarrow> page_next s = page_next t \<Longrightarrow>
   free_pages s = free_pages t"
  by (simp add: free_pages_def)

subsection \<open>What the operations do to the list\<close>

lemma kaddr_page2pa: "pp < npg \<Longrightarrow> npg \<le> 65536 \<Longrightarrow> kaddr npg (page2pa pp) = Some (page2pa pp + KERNBASE)"
  by (simp add: kaddr_def PGNUM_page2pa)

lemma page_alloc_empty: "free_ok s \<Longrightarrow> free_pages s = [] \<Longrightarrow> page_alloc z s = Some (None, s)"
  using free_ok_links [of s] by (simp add: page_alloc_def)

text \<open>The state that \<open>page_alloc\<close> leaves when it takes \<open>pp\<close> off the list.\<close>

definition take_page :: "bool \<Rightarrow> nat \<Rightarrow> kstate \<Rightarrow> kstate" where
  "take_page z pp s =
    (let s' = page_upd pp (\<lambda>p. p\<lparr>pp_link := None\<rparr>) (s\<lparr>page_free_list := page_next s pp\<rparr>)
     in if z then mem_zero pp s' else s')"

lemma take_page_fields [simp]:
  "npages (take_page z pp s) = npages s"
  "kern_pgdir (take_page z pp s) = kern_pgdir s"
  "page_free_list (take_page z pp s) = page_next s pp"
  "pages (take_page z pp s) = (pages s)(pp := (pages s pp)\<lparr>pp_link := None\<rparr>)"
  "mem (take_page z pp s) = (if z then (mem s)(pp := (\<lambda>_. 0)) else mem s)"
  "envs (take_page z pp s) = envs s"
  "env_free_list (take_page z pp s) = env_free_list s"
  "cpus (take_page z pp s) = cpus s"
  "cpunum (take_page z pp s) = cpunum s"
  "cr3 (take_page z pp s) = cr3 s"
  "tlb (take_page z pp s) = tlb s"
  "curenv (take_page z pp s) = curenv s"
  "kernel_lock (take_page z pp s) = kernel_lock s"
  by (simp_all add: take_page_def Let_def curenv_def)

lemma page_alloc_cons:
  assumes "free_ok s" and "free_pages s = pp # ps"
  shows "page_alloc z s = Some (Some pp, take_page z pp s)"
proof -
  from assms have "page_free_list s = Some pp" using free_ok_links [of s] by simp
  moreover from assms have "pp < npages s" "npages s \<le> 65536" by (auto simp: free_ok_def)
  ultimately show ?thesis
    by (simp add: page_alloc_def take_page_def page_next_def Let_def kaddr_page2pa)
qed

lemma take_page_free:
  assumes "free_ok s" and "free_pages s = pp # ps"
  shows "free_ok (take_page z pp s) \<and> free_pages (take_page z pp s) = ps"
proof (rule free_okI)
  have dist: "pp \<notin> set ps" using free_ok_distinct [OF assms(1)] assms(2) by simp
  have nx: "page_next (take_page z pp s) = (page_next s)(pp := None)"
    by (rule ext) (simp add: page_next_def)
  show "links (page_next (take_page z pp s)) (page_free_list (take_page z pp s)) ps"
    using free_ok_links [OF assms(1)] dist by (simp add: assms(2) nx)
  show "npages (take_page z pp s) \<le> 65536" using assms by (simp add: free_ok_def)
  show "p \<in> set ps \<Longrightarrow> p < npages (take_page z pp s) \<and> pp_ref (pages (take_page z pp s) p) = 0" for p
    using assms by (auto simp: free_ok_def)
  show "p < npages (take_page z pp s) \<Longrightarrow> p \<notin> set ps \<Longrightarrow> page_next (take_page z pp s) p = None" for p
    using assms unfolding nx by (auto simp: free_ok_def)
qed

text \<open>The state that \<open>page_free\<close> leaves.\<close>

definition put_page :: "nat \<Rightarrow> kstate \<Rightarrow> kstate" where
  "put_page pp s =
    (page_upd pp (\<lambda>p. p\<lparr>pp_link := page_free_list s\<rparr>) s)\<lparr>page_free_list := Some pp\<rparr>"

lemma put_page_fields [simp]:
  "npages (put_page pp s) = npages s"
  "kern_pgdir (put_page pp s) = kern_pgdir s"
  "page_free_list (put_page pp s) = Some pp"
  "pages (put_page pp s) = (pages s)(pp := (pages s pp)\<lparr>pp_link := page_free_list s\<rparr>)"
  "mem (put_page pp s) = mem s"
  "envs (put_page pp s) = envs s"
  "env_free_list (put_page pp s) = env_free_list s"
  "cpus (put_page pp s) = cpus s"
  "cpunum (put_page pp s) = cpunum s"
  "cr3 (put_page pp s) = cr3 s"
  "tlb (put_page pp s) = tlb s"
  "kernel_lock (put_page pp s) = kernel_lock s"
  by (simp_all add: put_page_def)

lemma page_free_eq:
  "page_free pp s = (if pp_ref (pages s pp) = 0 \<and> page_next s pp = None then Some (put_page pp s) else None)"
  by (simp add: page_free_def put_page_def page_next_def)

lemma put_page_free:
  assumes "free_ok s" "pp < npages s" "pp \<notin> set (free_pages s)" "pp_ref (pages s pp) = 0"
  shows "free_ok (put_page pp s) \<and> free_pages (put_page pp s) = pp # free_pages s"
proof (rule free_okI)
  have nx: "page_next (put_page pp s) = (page_next s)(pp := page_free_list s)"
    by (rule ext) (simp add: page_next_def)
  show "links (page_next (put_page pp s)) (page_free_list (put_page pp s)) (pp # free_pages s)"
    using free_ok_links [OF assms(1)] assms(3) unfolding nx by simp
  show "npages (put_page pp s) \<le> 65536"
    using assms by (simp add: free_ok_def)
  show "p \<in> set (pp # free_pages s) \<Longrightarrow>
      p < npages (put_page pp s) \<and> pp_ref (pages (put_page pp s) p) = 0" for p
    using assms by (auto simp: free_ok_def)
  show "p < npages (put_page pp s) \<Longrightarrow> p \<notin> set (pp # free_pages s) \<Longrightarrow>
      page_next (put_page pp s) p = None" for p
    using assms unfolding nx by (auto simp: free_ok_def)
qed

lemma page_free_ok:
  assumes "free_ok s" "pp < npages s" "pp \<notin> set (free_pages s)" "pp_ref (pages s pp) = 0"
  shows "page_free pp s = Some (put_page pp s)"
  using assms by (simp add: page_free_eq free_ok_def)

text \<open>Changing the reference count of a page that is not free keeps the list as it is.\<close>

lemma page_next_ref [simp]: "page_next (page_upd pp (\<lambda>p. p\<lparr>pp_ref := f p\<rparr>) s) = page_next s"
  by (rule ext) (simp add: page_next_def)

lemma free_pages_ref [simp]: "free_pages (page_upd pp (\<lambda>p. p\<lparr>pp_ref := f p\<rparr>) s) = free_pages s"
  by (rule free_pages_cong) simp_all

lemma free_ok_ref:
  "free_ok s \<Longrightarrow> pp \<notin> set (free_pages s) \<Longrightarrow> free_ok (page_upd pp (\<lambda>p. p\<lparr>pp_ref := f p\<rparr>) s)"
  by (simp add: free_ok_def)

text \<open>The state that \<open>page_decref\<close> leaves: the page goes back to the list with its last reference.\<close>

definition drop_ref :: "nat \<Rightarrow> kstate \<Rightarrow> kstate" where
  "drop_ref pp s =
    (let s1 = page_upd pp (\<lambda>p. p\<lparr>pp_ref := pp_ref p - 1\<rparr>) s
     in if pp_ref (pages s pp) = 1 then put_page pp s1 else s1)"

lemma drop_ref_fields [simp]:
  "npages (drop_ref pp s) = npages s"
  "kern_pgdir (drop_ref pp s) = kern_pgdir s"
  "mem (drop_ref pp s) = mem s"
  "envs (drop_ref pp s) = envs s"
  "env_free_list (drop_ref pp s) = env_free_list s"
  "cpus (drop_ref pp s) = cpus s"
  "cpunum (drop_ref pp s) = cpunum s"
  "cr3 (drop_ref pp s) = cr3 s"
  "tlb (drop_ref pp s) = tlb s"
  "kernel_lock (drop_ref pp s) = kernel_lock s"
  "curenv (drop_ref pp s) = curenv s"
  by (simp_all add: drop_ref_def Let_def curenv_def)

lemma drop_ref_ref [simp]:
  "pp_ref (pages (drop_ref pp s) q) = (if q = pp then pp_ref (pages s pp) - 1 else pp_ref (pages s q))"
  by (simp add: drop_ref_def Let_def)

lemma page_decref_ok:
  assumes "free_ok s" "pp < npages s" "pp \<notin> set (free_pages s)"
  shows "page_decref pp s = Some (drop_ref pp s)"
proof -
  have "page_next s pp = None" using assms by (simp add: free_ok_def)
  then show ?thesis
    by (auto simp: page_decref_def drop_ref_def Let_def page_free_eq)
qed

lemma drop_ref_free:
  assumes "free_ok s" "pp < npages s" "pp \<notin> set (free_pages s)"
  shows "free_ok (drop_ref pp s) \<and> free_pages (drop_ref pp s) =
    (if pp_ref (pages s pp) = 1 then pp # free_pages s else free_pages s)"
proof -
  let ?s1 = "page_upd pp (\<lambda>p. p\<lparr>pp_ref := pp_ref p - 1\<rparr>) s"
  have ok: "free_ok ?s1" using assms(1,3) by (rule free_ok_ref)
  show ?thesis
    using ok put_page_free [OF ok, of pp] assms by (auto simp: drop_ref_def Let_def)
qed

lemma free_pages_mem [simp]:
  "free_pages (mem_set fr i v s) = free_pages s"
  "free_pages (mem_zero fr s) = free_pages s"
  "free_pages (invlpg va s) = free_pages s"
  "free_pages (lcr3 fr s) = free_pages s"
  "free_pages (env_upd e g s) = free_pages s"
  "free_pages (set_curenv c s) = free_pages s"
  by (auto intro!: free_pages_cong simp: page_next_def)

lemma free_ok_mem [simp]:
  "free_ok (mem_set fr i v s) = free_ok s"
  "free_ok (mem_zero fr s) = free_ok s"
  "free_ok (invlpg va s) = free_ok s"
  "free_ok (lcr3 fr s) = free_ok s"
  "free_ok (env_upd e g s) = free_ok s"
  "free_ok (set_curenv c s) = free_ok s"
  by (simp_all add: free_ok_def page_next_def [abs_def])

subsection \<open>The interface\<close>

text \<open>
  What clients of the allocator rely on: \<open>inv\<close> holds of the states the kernel reaches,
  \<open>avail\<close> lists the pages that may be handed out, and \<open>spare p\<close> says that the caller
  may give \<open>p\<close> back.
\<close>

locale page_store =
  fixes alloc :: "'s \<Rightarrow> ('p option \<times> 's) option"
    and release :: "'p \<Rightarrow> 's \<Rightarrow> 's option"
    and inv :: "'s \<Rightarrow> bool"
    and avail :: "'s \<Rightarrow> 'p list"
    and spare :: "'p \<Rightarrow> 's \<Rightarrow> bool"
  assumes avail_distinct: "inv s \<Longrightarrow> distinct (avail s)"
    and alloc_none: "inv s \<Longrightarrow> avail s = [] \<Longrightarrow> alloc s = Some (None, s)"
    and alloc_some: "inv s \<Longrightarrow> avail s = p # ps \<Longrightarrow>
      \<exists>s'. alloc s = Some (Some p, s') \<and> inv s' \<and> avail s' = ps \<and> spare p s'"
    and release_spare: "inv s \<Longrightarrow> spare p s \<Longrightarrow>
      p \<notin> set (avail s) \<and> (\<exists>s'. release p s = Some s' \<and> inv s' \<and> avail s' = p # avail s)"
begin

lemma alloc_total: "inv s \<Longrightarrow> \<exists>r s'. alloc s = Some (r, s') \<and> inv s'"
  by (cases "avail s") (auto dest: alloc_none alloc_some)

lemma alloc_result:
  assumes "inv s" and "alloc s = Some (r, s')"
  shows "inv s' \<and> (case r of None \<Rightarrow> avail s = [] \<and> s' = s | Some p \<Rightarrow> avail s = p # avail s' \<and> spare p s')"
proof (cases "avail s")
  case Nil
  with assms alloc_none [of s] show ?thesis by auto
next
  case (Cons p ps)
  with assms alloc_some [OF assms(1) Cons] show ?thesis by auto
qed

lemma alloc_twice:
  assumes "inv s" and "alloc s = Some (Some p, s1)" and "alloc s1 = Some (Some q, s2)"
  shows "p \<noteq> q \<and> p \<notin> set (avail s2) \<and> q \<notin> set (avail s2)"
  using alloc_result [OF assms(1,2)] alloc_result [of s1 "Some q" s2] assms(3)
    avail_distinct [OF assms(1)] by auto

lemma release_alloc: "inv s \<Longrightarrow> spare p s \<Longrightarrow>
  \<exists>s' s''. release p s = Some s' \<and> alloc s' = Some (Some p, s'') \<and> avail s'' = avail s"
  by (meson alloc_some release_spare)

lemma alloc_release:
  assumes "inv s" and "alloc s = Some (Some p, s')"
  shows "\<exists>s''. release p s' = Some s'' \<and> inv s'' \<and> avail s'' = avail s"
  using alloc_result [OF assms] release_spare [of s' p] by auto

end

definition page_spare :: "nat \<Rightarrow> kstate \<Rightarrow> bool" where
  "page_spare p s \<longleftrightarrow> p < npages s \<and> p \<notin> set (free_pages s) \<and> pp_ref (pages s p) = 0"

interpretation pa: page_store "page_alloc z" page_free free_ok free_pages page_spare for z
proof
  fix s p ps
  show "free_ok s \<Longrightarrow> distinct (free_pages s)" by (rule free_ok_distinct)
  show "free_ok s \<Longrightarrow> free_pages s = [] \<Longrightarrow> page_alloc z s = Some (None, s)"
    by (rule page_alloc_empty)
  assume ok: "free_ok s"
  show "\<exists>s'. page_alloc z s = Some (Some p, s') \<and> free_ok s' \<and> free_pages s' = ps \<and> page_spare p s'"
    if "free_pages s = p # ps"
    using page_alloc_cons [OF ok that, of z] take_page_free [OF ok that, of z]
      free_ok_distinct [OF ok] ok that
    by (auto simp: page_spare_def free_ok_def)
  show "p \<notin> set (free_pages s) \<and>
      (\<exists>s'. page_free p s = Some s' \<and> free_ok s' \<and> free_pages s' = p # free_pages s)"
    if "page_spare p s"
    using page_free_ok [OF ok] put_page_free [OF ok] that by (auto simp: page_spare_def)
qed

subsection \<open>Building the list\<close>

definition blank_pages :: "kstate \<Rightarrow> bool" where
  "blank_pages s \<longleftrightarrow> page_free_list s = None \<and> npages s \<le> 65536 \<and>
     (\<forall>p < npages s. pages s p = \<lparr>pp_link = None, pp_ref = 0\<rparr>)"

lemma page_init_step_fields [simp]:
  "npages (page_init_step h a i s) = npages s"
  "npages_basemem (page_init_step h a i s) = npages_basemem s"
  by (simp_all add: page_init_step_def)

text \<open>The loop after \<open>k\<close> rounds: the pages below \<open>k\<close> are listed or counted as used.\<close>

lemma page_init_rounds:
  fixes h a :: nat and s :: kstate
  assumes "page_free_list s = None"
  defines "R \<equiv> page_reserved (npages_basemem s) h a"
  defines "t k \<equiv> fold (page_init_step h a) [0..<k] s"
  shows "npages (t k) = npages s \<and> npages_basemem (t k) = npages_basemem s \<and>
    links (page_next (t k)) (page_free_list (t k)) (rev (filter (\<lambda>i. \<not> R i) [0..<k])) \<and>
    (\<forall>p. (p \<ge> k \<longrightarrow> pages (t k) p = pages s p) \<and>
         (p < k \<longrightarrow> R p \<longrightarrow> pages (t k) p = (pages s p)\<lparr>pp_ref := 1\<rparr>) \<and>
         (p < k \<longrightarrow> \<not> R p \<longrightarrow> pp_ref (pages (t k) p) = pp_ref (pages s p)))"
proof (induction k)
  case 0
  show ?case by (simp add: t_def assms(1))
next
  case (Suc k)
  have step: "t (Suc k) = page_init_step h a k (t k)" by (simp add: t_def)
  show ?case
  proof (cases "R k")
    case True
    then have st: "t (Suc k) = page_upd k (\<lambda>p. p\<lparr>pp_ref := 1\<rparr>) (t k)"
      using Suc by (simp add: step page_init_step_def R_def)
    show ?thesis using Suc True unfolding st by (auto simp: less_Suc_eq)
  next
    case False
    then have st: "t (Suc k) =
        (page_upd k (\<lambda>p. p\<lparr>pp_link := page_free_list (t k)\<rparr>) (t k))\<lparr>page_free_list := Some k\<rparr>"
      using Suc by (simp add: step page_init_step_def R_def)
    have nx: "page_next (t (Suc k)) = (page_next (t k))(k := page_free_list (t k))"
      unfolding st by (rule ext) (simp add: page_next_def)
    have fl: "page_free_list (t (Suc k)) = Some k" by (simp add: st)
    have "links (page_next (t (Suc k))) (page_free_list (t (Suc k)))
        (rev (filter (\<lambda>i. \<not> R i) [0..<Suc k]))"
      unfolding nx fl using Suc False by simp
    then show ?thesis using Suc False by (auto simp: st less_Suc_eq)
  qed
qed

lemma page_init_list:
  assumes "blank_pages s" and "boot_alloc kend 0 s = Some (frontier, s1)"
  shows "\<exists>s'. page_init kend s = Some s' \<and> free_ok s' \<and> npages s' = npages s \<and>
    free_pages s' = rev (filter (\<lambda>i. \<not> page_reserved (npages_basemem s) 96 (unat (PGNUM (frontier - KERNBASE))) i)
                               [0..<npages s])"
proof -
  define a where "a = unat (PGNUM (frontier - KERNBASE))"
  define R where "R = page_reserved (npages_basemem s) 96 a"
  have h: "unat (PGNUM (EXTPHYSMEM - IOPHYSMEM)) = 96" by (simp add: unat_PGNUM layout)
  from assms(2) have s1: "s1 = s\<lparr>nextfree := nextfree s1\<rparr>"
    by (auto simp: boot_alloc_def Let_def split: if_splits)
  have s1f: "npages s1 = npages s" "npages_basemem s1 = npages_basemem s"
      "page_free_list s1 = None" "\<And>p. p < npages s \<Longrightarrow> pages s1 p = \<lparr>pp_link = None, pp_ref = 0\<rparr>"
    using assms(1) by (subst s1, simp add: blank_pages_def)+
  define s' where "s' = fold (page_init_step 96 a) [0..<npages s] s1"
  have run: "page_init kend s = Some s'"
    using assms(2) by (simp add: page_init_def s'_def s1f h a_def)
  note inv = page_init_rounds [OF s1f(3), of 96 a "npages s", folded s'_def, unfolded s1f, folded R_def]
  have "free_ok s' \<and> free_pages s' = rev (filter (\<lambda>i. \<not> R i) [0..<npages s])"
    using inv assms(1) s1f(4)
    by (intro free_okI) (auto simp: blank_pages_def page_next_def)
  with run inv show ?thesis by (auto simp: R_def a_def)
qed

lemma page_free_last_cycle:
  assumes "free_ok s" and "p = last (free_pages s)" and "free_pages s \<noteq> []"
  shows "\<not> free_ok (put_page p s)"
proof
  assume "free_ok (put_page p s)"
  then obtain ys where ys: "links (page_next (put_page p s)) (Some p) ys"
    using free_ok_links by fastforce
  have "page_next (put_page p s) = (page_next s)(p := page_free_list s)"
    by (rule ext) (simp add: page_next_def)
  moreover have "links (page_next s) (page_free_list s) (butlast (free_pages s) @ [p])"
    using free_ok_links [OF assms(1)] assms(2,3) by simp
  ultimately show False using links_cycle ys by metis
qed

lemma free_next_last:
  assumes "free_ok s" and "p \<in> set (free_pages s)"
  shows "page_next s p = None \<longleftrightarrow> p = last (free_pages s)"
proof -
  have "links nx a xs \<Longrightarrow> p \<in> set xs \<Longrightarrow> distinct xs \<Longrightarrow> nx p = None \<longleftrightarrow> p = last xs" for nx a xs
    by (induction xs arbitrary: a) (auto split: if_splits)
  with assms show ?thesis using free_ok_links free_ok_distinct by metis
qed

text \<open>A list of two pages, for the examples.\<close>

definition two_free :: kstate where
  "two_free = page_upd 300 (\<lambda>p. p\<lparr>pp_link := Some 301\<rparr>) (boot_state\<lparr>page_free_list := Some 300\<rparr>)"

lemma two_free_npages [simp]: "npages two_free = 1024"
  by (simp add: two_free_def)

lemma two_free_ok [simp]: "free_ok two_free" and two_free_pages [simp]: "free_pages two_free = [300, 301]"
proof -
  have "free_ok two_free \<and> free_pages two_free = [300, 301]"
    by (rule free_okI) (auto simp: two_free_def page_next_def)
  then show "free_ok two_free" "free_pages two_free = [300, 301]" by auto
qed

subsection \<open>Properties\<close>

text \<open>C7: \<open>page_init\<close> on cleared page structures links exactly the pages that are neither page 0,
  the application-processor entry page, nor in the reserved range; with base memory ending at or
  below 640 KB and the boot allocator's next free address \<open>frontier\<close> in extended memory, no page of the I/O hole
  and no page below the frontier can ever be handed out.\<close>

theorem page_init_protects:
  assumes "blank_pages s" and "boot_alloc kend 0 s = Some (frontier, s1)"
    and "npages_basemem s \<le> 160" and "unat EXTPHYSMEM \<le> unat (frontier - KERNBASE)"
  shows "\<exists>s'. page_init kend s = Some s' \<and> free_ok s' \<and>
    set (free_pages s') = {p. p < npages s \<and> p \<noteq> 0 \<and> p \<noteq> 7 \<and>
      (p < npages_basemem s \<or> npages_basemem s + 96 + unat (frontier - KERNBASE) div 4096 \<le> p)} \<and>
    (\<forall>p \<in> set (free_pages s').
       \<not> (unat IOPHYSMEM \<le> p * 4096 \<and> p * 4096 < unat (frontier - KERNBASE)))"
proof -
  have mp: "unat (PGNUM MPENTRY_PADDR) = 7" by (simp add: unat_PGNUM layout)
  obtain s' where s': "page_init kend s = Some s'" "free_ok s'"
    and fp: "free_pages s' = rev (filter
      (\<lambda>i. \<not> page_reserved (npages_basemem s) 96 (unat (PGNUM (frontier - KERNBASE))) i) [0..<npages s])"
    using page_init_list [OF assms(1,2)] by blast
  have fs: "set (free_pages s') = {p. p < npages s \<and> p \<noteq> 0 \<and> p \<noteq> 7 \<and>
      (p < npages_basemem s \<or> npages_basemem s + 96 + unat (frontier - KERNBASE) div 4096 \<le> p)}"
    unfolding fp page_reserved_def mp unfolding unat_PGNUM by auto
  have "p * 4096 < unat IOPHYSMEM \<or> unat (frontier - KERNBASE) \<le> p * 4096"
    if "p \<in> set (free_pages s')" for p
  proof (cases "p < npages_basemem s")
    case True
    with assms(3) show ?thesis by (simp add: layout)
  next
    case False
    with that fs have "unat (frontier - KERNBASE) div 4096 + 1 \<le> p" by auto
    then have "(unat (frontier - KERNBASE) div 4096 + 1) * 4096 \<le> p * 4096" by (rule mult_le_mono1)
    moreover have "unat (frontier - KERNBASE) < (unat (frontier - KERNBASE) div 4096 + 1) * 4096"
      using dividend_less_div_times [of 4096 "unat (frontier - KERNBASE)"] by simp
    ultimately show ?thesis by linarith
  qed
  then have "\<forall>p \<in> set (free_pages s').
      \<not> (unat IOPHYSMEM \<le> p * 4096 \<and> p * 4096 < unat (frontier - KERNBASE))"
    by (meson linorder_not_le)
  with s' fs show ?thesis by blast
qed

theorem page_init_protects_witness:
  "\<exists>s'. page_init 0xF0110000 boot_state = Some s' \<and> free_ok s' \<and>
    (\<forall>p \<in> set (free_pages s'). \<not> (unat IOPHYSMEM \<le> p * 4096 \<and> p * 4096 < 0x110000))"
proof -
  have b: "blank_pages boot_state" by (simp add: blank_pages_def)
  have a: "boot_alloc 0xF0110000 0 boot_state
      = Some (0xF0110000, boot_state\<lparr>nextfree := 0xF0110000\<rparr>)"
    by (simp add: boot_alloc_def ROUNDUP_def ROUNDDOWN_def layout)
  have k: "unat (0xF0110000 - KERNBASE) = 0x110000" by (simp add: layout)
  have e: "unat EXTPHYSMEM \<le> 0x110000" by (simp add: layout)
  have n: "npages_basemem boot_state \<le> 160" by simp
  show ?thesis using page_init_protects [OF b a n, unfolded k, OF e] by blast
qed

text \<open>C12: the page allocator is a LIFO store: after any successful \<open>page_alloc\<close> the list has
  exactly lost the returned page, a second \<open>page_alloc\<close> returns a different page, and giving the
  page back with \<open>page_free\<close> restores the list.\<close>

theorem page_alloc_free_lifo:
  assumes "free_ok s" and "page_alloc z s = Some (Some p, s1)"
  shows "free_ok s1 \<and> free_pages s = p # free_pages s1 \<and>
    (\<forall>q s2. page_alloc z s1 = Some (Some q, s2) \<longrightarrow> p \<noteq> q) \<and>
    (\<exists>s2. page_free p s1 = Some s2 \<and> free_ok s2 \<and> free_pages s2 = free_pages s)"
  using pa.alloc_result [OF assms] pa.alloc_twice [OF assms] pa.alloc_release [OF assms] by auto

theorem page_alloc_free_lifo_witness:
  "\<exists>s1 s2. page_alloc True two_free = Some (Some 300, s1) \<and> free_pages s1 = [301] \<and>
     page_free 300 s1 = Some s2 \<and> free_pages s2 = [300, 301]"
proof -
  have r: "page_alloc True two_free = Some (Some 300, take_page True 300 two_free)"
    by (rule page_alloc_cons [OF two_free_ok, of _ "[301]"]) simp
  show ?thesis using page_alloc_free_lifo [OF _ r] by (auto simp: r)
qed



end
