(* ===== verification/Page_Table.thy ===== *)
theory Page_Table
  imports Page_Alloc
begin

text \<open>
  Two-level page tables: \<open>pgdir_walk\<close>, \<open>page_lookup\<close>, \<open>page_insert\<close>, \<open>page_remove\<close> and
  the boot-time mappings of \<^verbatim>\<open>kernel/pmap.c\<close>. The abstraction of a page directory is the partial
  map from page numbers to entries (\<open>entry\<close>); the invariant \<open>vm_inv D\<close> describes the user part
  of a set \<open>D\<close> of page directories: their tables are owned once and have one reference, no mapped page is a table or a
  directory, and no page has more mappings than its reference count says.
\<close>

subsection \<open>Operations\<close>

text \<open>\<open>pt_entry\<close> is the last step of \<^verbatim>\<open>pgdir_walk\<close>, from the directory entry to the table entry.\<close>

definition pt_entry :: "kstate \<Rightarrow> nat \<Rightarrow> u32 \<Rightarrow> (nat \<times> nat) option" where
  "pt_entry s pgdir va = do {
     let pde = mem s pgdir (unat (PDX va));
     _ \<leftarrow> kaddr (npages s) (PTE_ADDR pde);
     Some (unat (PGNUM (PTE_ADDR pde)), unat (PTX va))
   }"

definition ref_inc :: "nat \<Rightarrow> kstate \<Rightarrow> kstate" where
  "ref_inc pp s = page_upd pp (\<lambda>p. p\<lparr>pp_ref := pp_ref p + 1\<rparr>) s"

definition pgdir_walk :: "nat \<Rightarrow> u32 \<Rightarrow> bool \<Rightarrow> kstate \<Rightarrow> ((nat \<times> nat) option \<times> kstate) option" where
  "pgdir_walk pgdir va create s =
    (let pd_off = unat (PDX va) in
     if has (mem s pgdir pd_off) PTE_P then do {
       pte \<leftarrow> pt_entry s pgdir va;
       Some (Some pte, s)
     }
     else if \<not> create then Some (None, s)
     else do {
       (new_page, s) \<leftarrow> page_alloc True s;
       case new_page of
         None \<Rightarrow> Some (None, s)
       | Some pp \<Rightarrow> do {
           let s = mem_set pgdir pd_off (page2pa pp OR PTE_P OR PTE_W OR PTE_U) s;
           let s = ref_inc pp s;
           pte \<leftarrow> pt_entry s pgdir va;
           Some (Some pte, s)
         }
     })"

definition page_lookup :: "nat \<Rightarrow> u32 \<Rightarrow> kstate \<Rightarrow> (nat \<times> nat \<times> nat) option option" where
  "page_lookup pgdir va s = do {
     (pt_entry, _) \<leftarrow> pgdir_walk pgdir va False s;
     case pt_entry of
       None \<Rightarrow> Some None
     | Some (f, i) \<Rightarrow>
         if \<not> has (mem s f i) PTE_P then Some None
         else do {
           pp \<leftarrow> pa2page (npages s) (PTE_ADDR (mem s f i));
           Some (Some (pp, f, i))
         }
   }"

definition tlb_invalidate :: "nat \<Rightarrow> u32 \<Rightarrow> kstate \<Rightarrow> kstate" where
  "tlb_invalidate pgdir va s =
    (case curenv s of
       None \<Rightarrow> invlpg va s
     | Some e \<Rightarrow> if env_pgdir (envs s e) = Some pgdir then invlpg va s else s)"

definition page_remove :: "nat \<Rightarrow> u32 \<Rightarrow> kstate \<Rightarrow> kstate option" where
  "page_remove pgdir va s = do {
     page \<leftarrow> page_lookup pgdir va s;
     case page of
       None \<Rightarrow> Some s
     | Some (pp, f, i) \<Rightarrow> do {
         s \<leftarrow> page_decref pp s;
         let s = mem_set f i 0 s;
         Some (tlb_invalidate pgdir va s)
       }
   }"

text \<open>
  In \<open>page_insert\<close> the page may be \<^verbatim>\<open>NULL\<close> (change the permissions of what is mapped);
  \<open>insert_page\<close> is the part before the label \<^verbatim>\<open>out\<close>, which settles the page and its count.
  Incrementing the count through a \<^verbatim>\<open>NULL\<close> page is a kernel fault.
\<close>

definition insert_page :: "nat \<Rightarrow> nat option \<Rightarrow> u32 \<Rightarrow> nat \<Rightarrow> nat \<Rightarrow> kstate \<Rightarrow> (nat \<times> kstate) option" where
  "insert_page pgdir pp va f i s =
    (if has (mem s f i) PTE_P then do {
       old \<leftarrow> page_lookup pgdir va s;
       case pp of
         None \<Rightarrow> do { (q, _) \<leftarrow> old; Some (q, s) }
       | Some p \<Rightarrow>
           if map_option fst old = Some p then Some (p, s)
           else do {
             s \<leftarrow> page_remove pgdir va s;
             Some (p, ref_inc p s)
           }
     }
     else do { p \<leftarrow> pp; Some (p, ref_inc p s) })"

definition page_insert :: "nat \<Rightarrow> nat option \<Rightarrow> u32 \<Rightarrow> u32 \<Rightarrow> kstate \<Rightarrow> (int \<times> kstate) option" where
  "page_insert pgdir pp va perm s = do {
     (pt_entry, s) \<leftarrow> pgdir_walk pgdir va True s;
     case pt_entry of
       None \<Rightarrow> Some (- E_NO_MEM, s)
     | Some (f, i) \<Rightarrow> do {
         (p, s) \<leftarrow> insert_page pgdir pp va f i s;
         let s = mem_set f i (page2pa p OR PTE_P OR perm) s;
         let s = mem_set pgdir (unat (PDX va)) (mem s pgdir (unat (PDX va)) OR perm OR PTE_P) s;
         Some (0, s)
       }
   }"

text \<open>
  The boot-time mappings. A missing table entry (\<^verbatim>\<open>NULL\<close>) is written through without a check,
  which is a kernel fault. The loops run \<open>n\<close> rounds.
\<close>

fun boot_map_loop :: "nat \<Rightarrow> nat \<Rightarrow> u32 \<Rightarrow> u32 \<Rightarrow> u32 \<Rightarrow> kstate \<Rightarrow> kstate option" where
  "boot_map_loop 0 pgdir va pa perm s = Some s"
| "boot_map_loop (Suc n) pgdir va pa perm s = do {
     (pt_entry, s) \<leftarrow> pgdir_walk pgdir va True s;
     (f, i) \<leftarrow> pt_entry;
     let s = mem_set f i (PTE_ADDR pa OR PTE_P OR perm) s;
     boot_map_loop n pgdir (va + PGSIZE) (pa + PGSIZE) perm s
   }"

definition boot_map_region :: "nat \<Rightarrow> u32 \<Rightarrow> u32 \<Rightarrow> u32 \<Rightarrow> u32 \<Rightarrow> kstate \<Rightarrow> kstate option" where
  "boot_map_region pgdir va sz pa perm s =
     boot_map_loop (unat (ROUNDUP sz PGSIZE div PGSIZE)) pgdir va pa perm s"

fun hugepage_loop :: "nat \<Rightarrow> nat \<Rightarrow> u32 \<Rightarrow> u32 \<Rightarrow> u32 \<Rightarrow> kstate \<Rightarrow> kstate" where
  "hugepage_loop 0 pgdir va pa perm s = s"
| "hugepage_loop (Suc n) pgdir va pa perm s =
     hugepage_loop n pgdir (va + PTSIZE) (pa + PTSIZE) perm
       (mem_set pgdir (unat (PDX va)) (pa OR PTE_P OR PTE_PS OR perm) s)"

definition boot_map_region_by_hugepage :: "nat \<Rightarrow> u32 \<Rightarrow> u32 \<Rightarrow> u32 \<Rightarrow> u32 \<Rightarrow> kstate \<Rightarrow> kstate" where
  "boot_map_region_by_hugepage pgdir va sz pa perm s =
     hugepage_loop (unat (drop_bit 22 sz)) pgdir va pa perm s"

definition mmio_map_region :: "u32 \<Rightarrow> u32 \<Rightarrow> kstate \<Rightarrow> (u32 \<times> kstate) option" where
  "mmio_map_region pa sz s =
    (let va = mmio_base s;
         sz = ROUNDUP sz PGSIZE;
         s = s\<lparr>mmio_base := mmio_base s + sz\<rparr>
     in if mmio_base s \<ge> MMIOLIM then None
        else do {
          s \<leftarrow> boot_map_region (kern_pgdir s) va sz pa (PTE_PCD OR PTE_PWT OR PTE_W) s;
          Some (va, s)
        })"

text \<open>\<open>physaddr\<close> in \<^verbatim>\<open>user_mem_phy_addr\<close> is what it stores; \<open>None\<close> is its return value -1.\<close>

definition user_mem_phy_addr :: "u32 \<Rightarrow> kstate \<Rightarrow> u32 option option" where
  "user_mem_phy_addr va s = do {
     e \<leftarrow> curenv s;
     pgdir \<leftarrow> env_pgdir (envs s e);
     r \<leftarrow> page_lookup pgdir va s;
     Some (map_option (\<lambda>(pp, _). page2pa pp OR PGOFF va) r)
   }"

subsection \<open>Abstraction and invariant\<close>

definition table :: "kstate \<Rightarrow> nat \<Rightarrow> nat \<Rightarrow> nat option" where
  "table s d i = (if has (mem s d i) PTE_P then Some (unat (PGNUM (mem s d i))) else None)"

definition entry :: "kstate \<Rightarrow> nat \<Rightarrow> nat \<Rightarrow> nat \<Rightarrow> u32 option" where
  "entry s d i j = (case table s d i of None \<Rightarrow> None
     | Some t \<Rightarrow> if has (mem s t j) PTE_P then Some (mem s t j) else None)"

definition frame_of :: "u32 \<Rightarrow> nat" where
  "frame_of pte = unat (PGNUM pte)"

definition slots :: "nat set \<Rightarrow> kstate \<Rightarrow> nat \<Rightarrow> (nat \<times> nat \<times> nat) set" where
  "slots D s p = {(d, i, j). d \<in> D \<and> i < 955 \<and> j < 1024 \<and>
     (\<exists>pte. entry s d i j = Some pte \<and> frame_of pte = p)}"

definition pt_shape :: "nat set \<Rightarrow> kstate \<Rightarrow> bool" where
  "pt_shape D s \<longleftrightarrow> finite D \<and>
     (\<forall>d \<in> D. \<forall>i < 955. \<forall>t. table s d i = Some t \<longrightarrow> t < npages s \<and> t \<notin> D \<and>
        (\<forall>d' \<in> D. \<forall>i' < 955. table s d' i' = Some t \<longrightarrow> d' = d \<and> i' = i))"

definition tables :: "nat set \<Rightarrow> kstate \<Rightarrow> nat set" where
  "tables D s = {t. \<exists>d \<in> D. \<exists>i < 955. table s d i = Some t}"

definition vm_inv :: "nat set \<Rightarrow> kstate \<Rightarrow> bool" where
  "vm_inv D s \<longleftrightarrow> free_ok s \<and> pt_shape D s \<and>
     (\<forall>p \<in> D \<union> tables D s. p < npages s \<and> pp_ref (pages s p) = 1 \<and> slots D s p = {}) \<and>
     (\<forall>p. slots D s p \<noteq> {} \<longrightarrow> p < npages s) \<and>
     (\<forall>p < npages s. card (slots D s p) \<le> unat (pp_ref (pages s p)))"

subsection \<open>Updates of tables and directories\<close>

lemma PDX_user: "va < UTOP \<Longrightarrow> unat (PDX va) < 955"
proof -
  assume "va < UTOP"
  then have "unat va < 4005560320" by (simp add: word_less_nat_alt layout)
  then show ?thesis by (simp add: unat_PDX div_less_iff_less_mult)
qed

lemma table_mem: "mem s = mem t \<Longrightarrow> table s = table t"
  by (intro ext) (auto simp: table_def)

lemma entry_mem: "mem s = mem t \<Longrightarrow> entry s = entry t"
  by (intro ext) (auto simp: entry_def table_def)

lemma shapeD:
  assumes "pt_shape D s" "d \<in> D" "i < 955" "table s d i = Some t"
  shows "t < npages s" and "t \<notin> D"
    and "d' \<in> D \<Longrightarrow> i' < 955 \<Longrightarrow> table s d' i' = Some t \<Longrightarrow> d' = d \<and> i' = i"
  using assms unfolding pt_shape_def by metis+

lemma table_set_pte:
  assumes "pt_shape D s" "d \<in> D" "i < 955" "table s d i = Some t" "d' \<in> D"
  shows "table (mem_set t j v s) d' i' = table s d' i'"
  using shapeD(2) [OF assms(1-4)] assms(5) by (auto simp: table_def)

lemma entry_set_pte:
  assumes "pt_shape D s" "d \<in> D" "i < 955" "table s d i = Some t" "d' \<in> D" "i' < 955"
  shows "entry (mem_set t j v s) d' i' j' =
    (if d' = d \<and> i' = i \<and> j' = j then (if has v PTE_P then Some v else None) else entry s d' i' j')"
proof (cases "table s d' i' = Some t")
  case True
  then have "d' = d" "i' = i" using shapeD(3) [OF assms] by auto
  with assms(4) table_set_pte [OF assms(1-5), of j v i'] show ?thesis by (simp add: entry_def)
next
  case False
  with assms(4) have "\<not> (d' = d \<and> i' = i)" by auto
  with False table_set_pte [OF assms(1-5), of j v i'] show ?thesis
    by (auto simp: entry_def split: option.split)
qed

lemma table_set_pde_flags:
  assumes "table s d i = Some t" "fl < 4096"
  shows "table (mem_set d i (mem s d i OR fl) s) d' i' = table s d' i'"
proof -
  have "PGNUM (mem s d i OR fl) = PGNUM (mem s d i)"
    by (rule bit_word_eqI) (auto simp: bits bit_or_iff dest: bit_flags [OF assms(2)])
  with assms(1) show ?thesis by (auto simp: table_def split: if_splits)
qed

lemma entry_set_pde_flags:
  assumes "pt_shape D s" "d \<in> D" "i < 955" "table s d i = Some t" "fl < 4096" "d' \<in> D" "i' < 955"
  shows "entry (mem_set d i (mem s d i OR fl) s) d' i' j' = entry s d' i' j'"
proof (cases "table s d' i'")
  case (Some t')
  then have "t' \<noteq> d" using shapeD(2) [OF assms(1,6,7)] assms(2) by auto
  with Some table_set_pde_flags [OF assms(4,5), of d' i'] show ?thesis by (simp add: entry_def)
qed (simp add: entry_def table_set_pde_flags [OF assms(4,5)])

lemma table_new:
  assumes "pt_shape D s" "p < 2 ^ 20" "fl < 4096" "has fl PTE_P"
  shows "table (mem_set d i (page2pa p OR fl) s) d' i' = (if d' = d \<and> i' = i then Some p else table s d' i')"
  using assms by (simp add: table_def PGNUM_entry)

subsection \<open>Counting mappings\<close>

lemma finite_slots: "pt_shape D s \<Longrightarrow> finite (slots D s p)"
  by (rule finite_subset [of _ "D \<times> {..<955} \<times> {..<1024}"]) (auto simp: slots_def pt_shape_def)

lemma slots_cong:
  "(\<And>d i j. d \<in> D \<Longrightarrow> i < 955 \<Longrightarrow> j < 1024 \<Longrightarrow> entry s d i j = entry t d i j) \<Longrightarrow>
   slots D s p = slots D t p"
  by (auto simp: slots_def)

lemma slots_clear:
  assumes "\<And>d' i' j'. d' \<in> D \<Longrightarrow> i' < 955 \<Longrightarrow> j' < 1024 \<Longrightarrow>
    entry s' d' i' j' = (if d' = d \<and> i' = i \<and> j' = j then None else entry s d' i' j')"
  shows "slots D s' q = slots D s q - {(d, i, j)}"
  using assms by (auto simp: slots_def split: if_splits)

lemma slots_write:
  assumes "\<And>d' i' j'. d' \<in> D \<Longrightarrow> i' < 955 \<Longrightarrow> j' < 1024 \<Longrightarrow>
      entry s' d' i' j' = (if d' = d \<and> i' = i \<and> j' = j then Some v else entry s d' i' j')"
    and "d \<in> D" "i < 955" "j < 1024"
  shows "slots D s' q = (if frame_of v = q then insert (d, i, j) (slots D s q) else slots D s q - {(d, i, j)})"
  using assms by (auto simp: slots_def split: if_splits)

lemma slots_mem: "mem s = mem t \<Longrightarrow> slots D s p = slots D t p"
  by (simp add: slots_def entry_mem [of s t])

lemma tables_cong:
  "(\<And>d i. d \<in> D \<Longrightarrow> i < 955 \<Longrightarrow> table s d i = table t d i) \<Longrightarrow> tables D s = tables D t"
  unfolding tables_def by (metis (no_types, lifting))

lemma pt_shape_cong:
  assumes "\<And>d i. d \<in> D \<Longrightarrow> i < 955 \<Longrightarrow> table s d i = table t d i" "npages s = npages t"
  shows "pt_shape D s = pt_shape D t"
  using assms by (simp add: pt_shape_def cong: conj_cong imp_cong)

lemma vm_inv_cong:
  assumes "mem s = mem t" "pages s = pages t" "npages s = npages t" "page_free_list s = page_free_list t"
  shows "vm_inv D s = vm_inv D t"
proof -
  have "page_next s = page_next t" by (rule ext) (simp add: page_next_def assms)
  then have "free_ok s = free_ok t" by (simp add: free_ok_def free_pages_def assms)
  moreover have "pt_shape D s = pt_shape D t"
    by (rule pt_shape_cong) (simp_all add: table_mem [OF assms(1)] assms)
  moreover have "tables D s = tables D t" by (rule tables_cong) (simp add: table_mem [OF assms(1)])
  ultimately show ?thesis by (simp only: vm_inv_def slots_mem [OF assms(1)] assms)
qed

lemma vm_inv_free: "vm_inv D s \<Longrightarrow> free_ok s"
  by (simp add: vm_inv_def)

lemma vm_inv_shape: "vm_inv D s \<Longrightarrow> pt_shape D s"
  by (simp add: vm_inv_def)

lemma vm_inv_npages: "vm_inv D s \<Longrightarrow> npages s \<le> 65536"
  by (simp add: vm_inv_def free_ok_def)

lemma vm_inv_mapped:
  assumes "vm_inv D s" "d \<in> D" "i < 955" "j < 1024" "entry s d i j = Some pte"
  shows "frame_of pte < npages s" "frame_of pte \<notin> set (free_pages s)"
    "frame_of pte \<notin> D \<union> tables D s" "0 < unat (pp_ref (pages s (frame_of pte)))"
proof -
  have sl: "(d, i, j) \<in> slots D s (frame_of pte)" using assms by (auto simp: slots_def)
  with assms(1) show lt: "frame_of pte < npages s" by (auto simp: vm_inv_def)
  have "0 < card (slots D s (frame_of pte))"
    using sl finite_slots [OF vm_inv_shape [OF assms(1)]] by (auto simp: card_gt_0_iff)
  moreover have "card (slots D s (frame_of pte)) \<le> unat (pp_ref (pages s (frame_of pte)))"
    using assms(1) lt by (simp add: vm_inv_def)
  ultimately show ref: "0 < unat (pp_ref (pages s (frame_of pte)))" by linarith
  then show "frame_of pte \<notin> set (free_pages s)"
    using vm_inv_free [OF assms(1)] by (auto simp: free_ok_def)
  show "frame_of pte \<notin> D \<union> tables D s" using assms(1) sl by (auto simp: vm_inv_def)
qed

subsection \<open>Walking and looking up\<close>

lemma pt_entry_table:
  assumes "table s d (unat (PDX va)) = Some t" "t < npages s"
  shows "pt_entry s d va = Some (t, unat (PTX va))"
  using assms by (auto simp: pt_entry_def table_def kaddr_def split: if_splits)

lemma walk_present:
  assumes "table s d (unat (PDX va)) = Some t" "t < npages s"
  shows "pgdir_walk d va create s = Some (Some (t, unat (PTX va)), s)"
proof -
  have "has (mem s d (unat (PDX va))) PTE_P" using assms(1) by (simp add: table_def split: if_splits)
  then show ?thesis by (simp add: pgdir_walk_def pt_entry_table [OF assms] Let_def)
qed

lemma walk_absent: "table s d (unat (PDX va)) = None \<Longrightarrow> pgdir_walk d va False s = Some (None, s)"
  by (simp add: pgdir_walk_def table_def split: if_splits)

lemma page_lookup_entry:
  assumes "vm_inv D s" "d \<in> D" "va < UTOP"
  shows "page_lookup d va s = Some (map_option (\<lambda>pte. (frame_of pte, the (table s d (unat (PDX va))), unat (PTX va)))
    (entry s d (unat (PDX va)) (unat (PTX va))))"
proof (cases "table s d (unat (PDX va))")
  case None
  then show ?thesis by (simp add: page_lookup_def walk_absent entry_def)
next
  case (Some t)
  note px = PDX_user [OF assms(3)]
  have t: "t < npages s" using shapeD(1) [OF vm_inv_shape [OF assms(1)] assms(2) px Some] .
  show ?thesis
  proof (cases "has (mem s t (unat (PTX va))) PTE_P")
    case True
    then have e: "entry s d (unat (PDX va)) (unat (PTX va)) = Some (mem s t (unat (PTX va)))"
      by (simp add: entry_def Some)
    have "frame_of (mem s t (unat (PTX va))) < npages s"
      by (rule vm_inv_mapped(1) [OF assms(1,2) px PTX_less e])
    then have "pa2page (npages s) (mem s t (unat (PTX va))) = Some (frame_of (mem s t (unat (PTX va))))"
      by (simp add: pa2page_def frame_of_def)
    with True e show ?thesis by (simp add: page_lookup_def walk_present [OF Some t] Some)
  qed (simp add: page_lookup_def walk_present [OF Some t] entry_def Some)
qed

subsection \<open>Creating a table\<close>

text \<open>The state after \<open>pgdir_walk\<close> has taken \<open>p\<close> off the free list as a new table.\<close>

definition add_table :: "nat \<Rightarrow> nat \<Rightarrow> nat \<Rightarrow> kstate \<Rightarrow> kstate" where
  "add_table d i p s = ref_inc p (mem_set d i (page2pa p OR PTE_P OR PTE_W OR PTE_U) (take_page True p s))"

lemma ref_inc_fields [simp]:
  "npages (ref_inc p s) = npages s" "kern_pgdir (ref_inc p s) = kern_pgdir s"
  "mem (ref_inc p s) = mem s" "envs (ref_inc p s) = envs s"
  "env_free_list (ref_inc p s) = env_free_list s" "cpus (ref_inc p s) = cpus s"
  "cpunum (ref_inc p s) = cpunum s" "cr3 (ref_inc p s) = cr3 s" "tlb (ref_inc p s) = tlb s"
  "kernel_lock (ref_inc p s) = kernel_lock s" "curenv (ref_inc p s) = curenv s"
  "free_pages (ref_inc p s) = free_pages s"
  by (simp_all add: ref_inc_def)

lemma ref_inc_ref [simp]:
  "pp_ref (pages (ref_inc p s) q) = (if q = p then pp_ref (pages s p) + 1 else pp_ref (pages s q))"
  by (simp add: ref_inc_def)

lemma free_ok_ref_inc: "free_ok s \<Longrightarrow> p \<notin> set (free_pages s) \<Longrightarrow> free_ok (ref_inc p s)"
  by (simp add: ref_inc_def free_ok_ref)

lemma add_table_fields [simp]:
  "npages (add_table d i p s) = npages s" "kern_pgdir (add_table d i p s) = kern_pgdir s"
  "envs (add_table d i p s) = envs s" "env_free_list (add_table d i p s) = env_free_list s"
  "cpus (add_table d i p s) = cpus s" "cpunum (add_table d i p s) = cpunum s"
  "cr3 (add_table d i p s) = cr3 s" "tlb (add_table d i p s) = tlb s"
  "kernel_lock (add_table d i p s) = kernel_lock s" "curenv (add_table d i p s) = curenv s"
  by (simp_all add: add_table_def)

lemma pde_flags: "(PTE_P OR PTE_W OR PTE_U) < 4096" "has (PTE_P OR PTE_W OR PTE_U) PTE_P"
  by (simp_all add: has_def)

lemma walk_create:
  assumes "free_ok s" "free_pages s = p # ps" "table s d (unat (PDX va)) = None" "d \<noteq> p"
  shows "pgdir_walk d va True s = Some (Some (p, unat (PTX va)), add_table d (unat (PDX va)) p s)"
proof -
  have lt: "p < npages s" "npages s \<le> 65536" using assms(1,2) by (auto simp: free_ok_def)
  then have "table (add_table d (unat (PDX va)) p s) d (unat (PDX va)) = Some p"
    using pde_flags PGNUM_entry [of "PTE_P OR PTE_W OR PTE_U" p] by (simp add: table_def add_table_def)
  then have "pt_entry (add_table d (unat (PDX va)) p s) d va = Some (p, unat (PTX va))"
    by (rule pt_entry_table) (simp add: lt)
  moreover have "\<not> has (mem s d (unat (PDX va))) PTE_P"
    using assms(3) by (simp add: table_def split: if_splits)
  ultimately show ?thesis
    by (simp add: pgdir_walk_def page_alloc_cons [OF assms(1,2)] add_table_def Let_def)
qed

lemma walk_no_mem:
  assumes "free_ok s" "free_pages s = []" "table s d (unat (PDX va)) = None"
  shows "pgdir_walk d va True s = Some (None, s)"
  using assms by (simp add: pgdir_walk_def page_alloc_empty table_def split: if_splits)

lemma new_page_unused:
  assumes "vm_inv D s" "free_pages s = p # ps"
  shows "p \<notin> D \<union> tables D s"
  using assms by (auto simp: vm_inv_def free_ok_def)

lemma add_table_table:
  assumes "vm_inv D s" "d \<in> D" "free_pages s = p # ps" "d' \<in> D"
  shows "table (add_table d i p s) d' i' = (if d' = d \<and> i' = i then Some p else table s d' i')"
proof -
  have "p < 2 ^ 20" using assms(1,3) by (auto simp: vm_inv_def free_ok_def)
  then have "unat (PGNUM (page2pa p OR PTE_P OR PTE_W OR PTE_U)) = p"
    using pde_flags PGNUM_entry by (simp only:)
  moreover have "d' \<noteq> p" using new_page_unused [OF assms(1,3)] assms(4) by auto
  ultimately show ?thesis using pde_flags(2) by (auto simp: table_def add_table_def)
qed

lemma add_table_entry:
  assumes "vm_inv D s" "d \<in> D" "free_pages s = p # ps" "table s d i = None" "d' \<in> D" "i' < 955"
  shows "entry (add_table d i p s) d' i' j' = entry s d' i' j'"
proof (cases "d' = d \<and> i' = i")
  case True
  then have "table (add_table d i p s) d' i' = Some p" using add_table_table [OF assms(1-3,5)] by simp
  moreover have "p \<noteq> d" using new_page_unused [OF assms(1,3)] assms(2) by auto
  ultimately show ?thesis using True assms(4) by (simp add: entry_def add_table_def has_def)
next
  case False
  then have tb: "table (add_table d i p s) d' i' = table s d' i'"
    using add_table_table [OF assms(1-3,5), of i i'] by auto
  show ?thesis
  proof (cases "table s d' i'")
    case (Some t)
    then have "t \<in> tables D s" "t \<notin> D"
      using assms(5,6) shapeD(2) [OF vm_inv_shape [OF assms(1)]] by (auto simp: tables_def)
    then have "t \<noteq> p" "t \<noteq> d" using new_page_unused [OF assms(1,3)] assms(2) by auto
    then show ?thesis using Some tb by (simp add: entry_def add_table_def)
  qed (simp add: entry_def tb)
qed

lemma add_table_inv:
  assumes "vm_inv D s" "d \<in> D" "i < 955" "free_pages s = p # ps" "table s d i = None"
  shows "vm_inv D (add_table d i p s) \<and> free_pages (add_table d i p s) = ps"
proof -
  let ?s = "add_table d i p s"
  note tb = add_table_table [OF assms(1,2,4)]
  note np = new_page_unused [OF assms(1,4)]
  have f: "free_ok (take_page True p s)" "free_pages (take_page True p s) = ps"
    using take_page_free [OF vm_inv_free [OF assms(1)] assms(4)] by auto
  have pn: "p \<notin> set ps" using free_ok_distinct [OF vm_inv_free [OF assms(1)]] assms(4) by simp
  have free: "free_ok ?s" "free_pages ?s = ps" using f pn by (auto simp: add_table_def intro!: free_ok_ref_inc)
  have sl: "slots D ?s q = slots D s q" for q
    by (rule slots_cong, rule add_table_entry [OF assms(1,2,4,5)])
  have p0: "pp_ref (pages s p) = 0" "p < npages s" using assms(1,4) by (auto simp: vm_inv_def free_ok_def)
  have ref: "pp_ref (pages ?s q) = (if q = p then 1 else pp_ref (pages s q))" for q
    using p0 by (simp add: add_table_def)
  have tabs: "tables D ?s = insert p (tables D s)"
  proof
    show "tables D ?s \<subseteq> insert p (tables D s)" by (auto simp: tables_def tb split: if_splits)
    have "t \<in> tables D ?s" if "d' \<in> D" "i' < 955" "table s d' i' = Some t" for t d' i'
    proof -
      have "table ?s d' i' = Some t" using that assms(5) by (auto simp: tb)
      with that show ?thesis unfolding tables_def by blast
    qed
    moreover have "p \<in> tables D ?s" using assms(2,3) tb [of d i i] by (auto simp: tables_def)
    ultimately show "insert p (tables D s) \<subseteq> tables D ?s" by (auto simp: tables_def)
  qed
  have shape: "pt_shape D ?s"
    unfolding pt_shape_def
  proof (intro conjI ballI allI impI)
    show "finite D" using assms(1) by (simp add: vm_inv_def pt_shape_def)
    fix d1 i1 t assume 1: "d1 \<in> D" "i1 < 955" "table ?s d1 i1 = Some t"
    show "t < npages ?s" "t \<notin> D"
      using 1 np p0 shapeD(1,2) [OF vm_inv_shape [OF assms(1)] 1(1,2)] by (auto simp: tb split: if_splits)
    fix d2 i2 assume 2: "d2 \<in> D" "i2 < 955" "table ?s d2 i2 = Some t"
    have "table s d1 i1 = Some t \<Longrightarrow> table s d2 i2 = Some t \<Longrightarrow> d2 = d1 \<and> i2 = i1"
      using shapeD(3) [OF vm_inv_shape [OF assms(1)] 1(1,2) _ 2(1,2)] by simp
    with 1 2 np show "d2 = d1" "i2 = i1" by (auto simp: tb tables_def split: if_splits)
  qed
  have p_slots: "slots D s p = {}"
    using assms(1) p0 finite_slots [OF vm_inv_shape [OF assms(1)]] by (auto simp: vm_inv_def)
  have "card (slots D ?s q) \<le> unat (pp_ref (pages ?s q))" if "q < npages ?s" for q
    using assms(1) that p_slots by (auto simp: vm_inv_def sl ref)
  with assms(1) free shape p_slots p0 show ?thesis
    by (auto simp: vm_inv_def sl tabs ref)
qed

subsection \<open>Removing a mapping\<close>

lemma tlb_invalidate_fields [simp]:
  "npages (tlb_invalidate d va s) = npages s" "kern_pgdir (tlb_invalidate d va s) = kern_pgdir s"
  "pages (tlb_invalidate d va s) = pages s" "mem (tlb_invalidate d va s) = mem s"
  "envs (tlb_invalidate d va s) = envs s" "env_free_list (tlb_invalidate d va s) = env_free_list s"
  "cpus (tlb_invalidate d va s) = cpus s" "cpunum (tlb_invalidate d va s) = cpunum s"
  "cr3 (tlb_invalidate d va s) = cr3 s" "kernel_lock (tlb_invalidate d va s) = kernel_lock s"
  "curenv (tlb_invalidate d va s) = curenv s" "free_pages (tlb_invalidate d va s) = free_pages s"
  "free_ok (tlb_invalidate d va s) = free_ok s"
  by (simp_all add: tlb_invalidate_def split: option.split)

definition unmap :: "nat \<Rightarrow> u32 \<Rightarrow> kstate \<Rightarrow> kstate" where
  "unmap d va s = (case entry s d (unat (PDX va)) (unat (PTX va)) of
     None \<Rightarrow> s
   | Some pte \<Rightarrow> tlb_invalidate d va (mem_set (the (table s d (unat (PDX va)))) (unat (PTX va)) 0
                   (drop_ref (frame_of pte) s)))"

lemma page_remove_unmap:
  assumes "vm_inv D s" "d \<in> D" "va < UTOP"
  shows "page_remove d va s = Some (unmap d va s)"
proof (cases "entry s d (unat (PDX va)) (unat (PTX va))")
  case (Some pte)
  note m = vm_inv_mapped [OF assms(1,2) PDX_user [OF assms(3)] PTX_less Some]
  show ?thesis using Some page_decref_ok [OF vm_inv_free [OF assms(1)] m(1,2)]
    by (simp add: page_remove_def page_lookup_entry [OF assms] unmap_def)
qed (simp add: page_remove_def page_lookup_entry [OF assms] unmap_def)

lemma unmap_fields [simp]:
  "npages (unmap d va s) = npages s" "kern_pgdir (unmap d va s) = kern_pgdir s"
  "envs (unmap d va s) = envs s" "env_free_list (unmap d va s) = env_free_list s"
  "cpus (unmap d va s) = cpus s" "cpunum (unmap d va s) = cpunum s" "cr3 (unmap d va s) = cr3 s"
  "kernel_lock (unmap d va s) = kernel_lock s" "curenv (unmap d va s) = curenv s"
  by (simp_all add: unmap_def split: option.split)

lemma unmap_ref:
  "pp_ref (pages (unmap d va s) q) =
    (if \<exists>pte. entry s d (unat (PDX va)) (unat (PTX va)) = Some pte \<and> frame_of pte = q
     then pp_ref (pages s q) - 1 else pp_ref (pages s q))"
  by (auto simp: unmap_def split: option.split)

lemma entry_table: "entry s d i j = Some pte \<Longrightarrow> \<exists>t. table s d i = Some t \<and> mem s t j = pte"
  by (auto simp: entry_def split: option.splits if_splits)

lemma unmap_table:
  assumes "pt_shape D s" "d \<in> D" "va < UTOP" "d' \<in> D"
  shows "table (unmap d va s) d' i' = table s d' i'"
proof (cases "entry s d (unat (PDX va)) (unat (PTX va))")
  case (Some pte)
  then obtain t where t: "table s d (unat (PDX va)) = Some t" using entry_table by blast
  have "table (unmap d va s) = table (mem_set t (unat (PTX va)) 0 s)"
    by (rule table_mem) (simp add: unmap_def Some t)
  with table_set_pte [OF assms(1,2) PDX_user [OF assms(3)] t assms(4)] show ?thesis by simp
qed (simp add: unmap_def)

lemma unmap_entry:
  assumes "pt_shape D s" "d \<in> D" "va < UTOP" "d' \<in> D" "i' < 955"
  shows "entry (unmap d va s) d' i' j' =
    (if d' = d \<and> i' = unat (PDX va) \<and> j' = unat (PTX va) then None else entry s d' i' j')"
proof (cases "entry s d (unat (PDX va)) (unat (PTX va))")
  case (Some pte)
  then obtain t where t: "table s d (unat (PDX va)) = Some t" using entry_table by blast
  have "entry (unmap d va s) = entry (mem_set t (unat (PTX va)) 0 s)"
    by (rule entry_mem) (simp add: unmap_def Some t)
  with entry_set_pte [OF assms(1,2) PDX_user [OF assms(3)] t assms(4,5)] show ?thesis
    by (simp add: has_def)
qed (auto simp: unmap_def)

lemma unmap_free:
  assumes "vm_inv D s" "d \<in> D" "va < UTOP"
  shows "free_ok (unmap d va s)" "set (free_pages (unmap d va s)) \<subseteq>
    set (free_pages s) \<union> {p. \<exists>pte. entry s d (unat (PDX va)) (unat (PTX va)) = Some pte \<and> frame_of pte = p}"
proof -
  have "free_ok (unmap d va s) \<and> set (free_pages (unmap d va s)) \<subseteq>
    set (free_pages s) \<union> {p. \<exists>pte. entry s d (unat (PDX va)) (unat (PTX va)) = Some pte \<and> frame_of pte = p}"
  proof (cases "entry s d (unat (PDX va)) (unat (PTX va))")
    case None
    with vm_inv_free [OF assms(1)] show ?thesis by (simp add: unmap_def)
  next
    case (Some pte)
    note m = vm_inv_mapped [OF assms(1,2) PDX_user [OF assms(3)] PTX_less Some]
    show ?thesis using drop_ref_free [OF vm_inv_free [OF assms(1)] m(1,2)] by (auto simp: unmap_def Some)
  qed
  then show "free_ok (unmap d va s)" "set (free_pages (unmap d va s)) \<subseteq>
    set (free_pages s) \<union> {p. \<exists>pte. entry s d (unat (PDX va)) (unat (PTX va)) = Some pte \<and> frame_of pte = p}"
    by auto
qed

lemma unat_dec16: "0 < unat (x :: u16) \<Longrightarrow> unat (x - 1) = unat x - 1"
  by (simp add: unat_sub word_le_nat_alt Suc_leI)

lemma unmap_inv:
  assumes "vm_inv D s" "d \<in> D" "va < UTOP"
  shows "vm_inv D (unmap d va s)"
proof (cases "entry s d (unat (PDX va)) (unat (PTX va))")
  case None
  with assms(1) show ?thesis by (simp add: unmap_def)
next
  case (Some pte)
  let ?s = "unmap d va s" and ?x = "(d, unat (PDX va), unat (PTX va))"
  note px = PDX_user [OF assms(3)]
  note m = vm_inv_mapped [OF assms(1,2) px PTX_less Some]
  note tb = unmap_table [OF vm_inv_shape [OF assms(1)] assms(2,3)]
  have sl: "slots D ?s q = slots D s q - {?x}" for q
    by (rule slots_clear) (rule unmap_entry [OF vm_inv_shape [OF assms(1)] assms(2,3)])
  have x: "?x \<in> slots D s q \<longleftrightarrow> q = frame_of pte" for q
    using Some assms(2) px by (auto simp: slots_def)
  have ref: "pp_ref (pages ?s q) = (if q = frame_of pte then pp_ref (pages s q) - 1 else pp_ref (pages s q))" for q
    by (auto simp: unmap_ref Some)
  have tabs: "tables D ?s = tables D s" by (rule tables_cong) (rule tb)
  have shape: "pt_shape D ?s"
    using pt_shape_cong [of D ?s s] tb vm_inv_shape [OF assms(1)] by simp
  have "card (slots D ?s q) \<le> unat (pp_ref (pages ?s q))" if "q < npages s" for q
  proof -
    have "card (slots D s q) \<le> unat (pp_ref (pages s q))" using assms(1) that by (simp add: vm_inv_def)
    then show ?thesis
      using m(4) finite_slots [OF vm_inv_shape [OF assms(1)]]
      by (auto simp: sl ref x unat_dec16 card_Diff_singleton)
  qed
  with assms(1) unmap_free(1) [OF assms] shape m(3) show ?thesis
    by (auto simp: vm_inv_def sl tabs ref)
qed

subsection \<open>Installing a mapping\<close>

definition link_page :: "nat \<Rightarrow> u32 \<Rightarrow> nat \<Rightarrow> nat \<Rightarrow> u32 \<Rightarrow> kstate \<Rightarrow> kstate" where
  "link_page d va t p perm s =
    (let s = mem_set t (unat (PTX va)) (page2pa p OR PTE_P OR perm) s
     in mem_set d (unat (PDX va)) (mem s d (unat (PDX va)) OR perm OR PTE_P) s)"

lemma link_page_fields [simp]:
  "npages (link_page d va t p perm s) = npages s" "kern_pgdir (link_page d va t p perm s) = kern_pgdir s"
  "pages (link_page d va t p perm s) = pages s"
  "envs (link_page d va t p perm s) = envs s" "env_free_list (link_page d va t p perm s) = env_free_list s"
  "cpus (link_page d va t p perm s) = cpus s" "cpunum (link_page d va t p perm s) = cpunum s"
  "cr3 (link_page d va t p perm s) = cr3 s" "kernel_lock (link_page d va t p perm s) = kernel_lock s"
  "tlb (link_page d va t p perm s) = tlb s"
  "curenv (link_page d va t p perm s) = curenv s" "free_pages (link_page d va t p perm s) = free_pages s"
  "free_ok (link_page d va t p perm s) = free_ok s"
  by (simp_all add: link_page_def Let_def)

lemma new_pte:
  assumes "p < 65536" "perm < 4096"
  shows "has (page2pa p OR PTE_P OR perm) PTE_P" and "frame_of (page2pa p OR PTE_P OR perm) = p"
proof -
  show "has (page2pa p OR PTE_P OR perm) PTE_P" by (simp add: has_def bit.conj_disj_distrib2 or_eq_0_iff)
  have "(PTE_P OR perm) < 4096" using assms(2) by (intro flags_or) auto
  then have "unat (PGNUM (page2pa p OR (PTE_P OR perm))) = p" using assms(1) by (intro PGNUM_entry) auto
  then show "frame_of (page2pa p OR PTE_P OR perm) = p" by (simp add: frame_of_def or.assoc)
qed

lemma link_table:
  assumes "pt_shape D s" "d \<in> D" "va < UTOP" "table s d (unat (PDX va)) = Some t" "perm < 4096" "d' \<in> D"
  shows "table (link_page d va t p perm s) d' i' = table s d' i'"
proof -
  let ?s = "mem_set t (unat (PTX va)) (page2pa p OR PTE_P OR perm) s"
  note tb = table_set_pte [OF assms(1,2) PDX_user [OF assms(3)] assms(4)]
  have "(perm OR PTE_P) < 4096" using assms(5) by (intro flags_or) auto
  then have "table (link_page d va t p perm s) d' i' = table ?s d' i'"
    using table_set_pde_flags [of ?s d "unat (PDX va)" t "perm OR PTE_P"] tb [OF assms(2)] assms(4)
    by (simp add: link_page_def Let_def or.assoc)
  with tb [OF assms(6)] show ?thesis by simp
qed

lemma link_entry:
  assumes "pt_shape D s" "d \<in> D" "va < UTOP" "table s d (unat (PDX va)) = Some t" "perm < 4096"
    "p < 65536" "d' \<in> D" "i' < 955"
  shows "entry (link_page d va t p perm s) d' i' j' =
    (if d' = d \<and> i' = unat (PDX va) \<and> j' = unat (PTX va) then Some (page2pa p OR PTE_P OR perm)
     else entry s d' i' j')"
proof -
  let ?s = "mem_set t (unat (PTX va)) (page2pa p OR PTE_P OR perm) s"
  note px = PDX_user [OF assms(3)]
  have tb: "table ?s d (unat (PDX va)) = Some t"
    using table_set_pte [OF assms(1,2) px assms(4) assms(2)] assms(4) by simp
  have shape: "pt_shape D ?s"
    using pt_shape_cong [of D ?s s] table_set_pte [OF assms(1,2) px assms(4)] assms(1) by simp
  have fl: "(perm OR PTE_P) < 4096" using assms(5) by (intro flags_or) auto
  have "entry (link_page d va t p perm s) d' i' j' = entry ?s d' i' j'"
    using entry_set_pde_flags [OF shape assms(2) px tb fl assms(7,8)]
    by (simp add: link_page_def Let_def or.assoc)
  with entry_set_pte [OF assms(1,2) px assms(4,7,8)] new_pte(1) [OF assms(6,5)] show ?thesis by simp
qed

lemma slots_ref_inc [simp]: "slots D (ref_inc p s) q = slots D s q"
  by (rule slots_mem) simp

lemma link_inv_new:
  assumes "vm_inv D s" "d \<in> D" "va < UTOP" "table s d (unat (PDX va)) = Some t" "perm < 4096"
    and none: "entry s d (unat (PDX va)) (unat (PTX va)) = None"
    and p: "p < npages s" "p \<notin> set (free_pages s)" "p \<notin> D \<union> tables D s" "unat (pp_ref (pages s p)) < 65535"
  shows "vm_inv D (link_page d va t p perm (ref_inc p s))"
proof -
  let ?s1 = "ref_inc p s" and ?x = "(d, unat (PDX va), unat (PTX va))"
  let ?s = "link_page d va t p perm ?s1"
  note sh = vm_inv_shape [OF assms(1)]
  have tb1: "table ?s1 = table s" by (rule table_mem) simp
  have e1: "entry ?s1 = entry s" by (rule entry_mem) simp
  have sh1: "pt_shape D ?s1" using sh by (subst pt_shape_cong [of D ?s1 s]) (simp_all add: tb1)
  have t1: "table ?s1 d (unat (PDX va)) = Some t" using assms(4) by (simp add: tb1)
  have p16: "p < 65536" using p(1) vm_inv_npages [OF assms(1)] by simp
  note tb = link_table [OF sh1 assms(2,3) t1 assms(5), of _ p, unfolded tb1]
  have sl: "slots D ?s q = (if p = q then insert ?x (slots D s q) else slots D s q - {?x})" for q
    using slots_write [OF link_entry [OF sh1 assms(2,3) t1 assms(5) p16] assms(2) PDX_user [OF assms(3)] PTX_less]
      new_pte(2) [OF p16 assms(5)] by simp
  have x: "?x \<notin> slots D s q" for q using none by (simp add: slots_def)
  have tabs: "tables D ?s = tables D s" by (rule tables_cong) (rule tb)
  have shape: "pt_shape D ?s" using pt_shape_cong [of D ?s s] tb sh by simp
  have inc: "unat (pp_ref (pages s p) + 1) = unat (pp_ref (pages s p)) + 1"
    using p(4) by (simp add: unat_word_ariths)
  have "card (slots D ?s q) \<le> unat (pp_ref (pages ?s q))" if "q < npages s" for q
  proof -
    have "card (slots D s q) \<le> unat (pp_ref (pages s q))" using assms(1) that by (simp add: vm_inv_def)
    then show ?thesis using finite_slots [OF sh] by (auto simp: sl x inc)
  qed
  moreover have "pp_ref (pages ?s q) = 1" if "q \<in> D \<union> tables D s" for q
    using that p(3) assms(1) by (auto simp: vm_inv_def)
  moreover have "free_ok ?s" using free_ok_ref_inc [OF vm_inv_free [OF assms(1)] p(2)] by simp
  ultimately show ?thesis using assms(1) shape p(1,3)
    by (auto simp: vm_inv_def sl tabs simp del: ref_inc_ref)
qed

lemma link_inv_same:
  assumes "vm_inv D s" "d \<in> D" "va < UTOP" "table s d (unat (PDX va)) = Some t" "perm < 4096"
    and e: "entry s d (unat (PDX va)) (unat (PTX va)) = Some pte"
  shows "vm_inv D (link_page d va t (frame_of pte) perm s)"
proof -
  let ?p = "frame_of pte" and ?x = "(d, unat (PDX va), unat (PTX va))"
  let ?s = "link_page d va t ?p perm s"
  note sh = vm_inv_shape [OF assms(1)]
  have p16: "?p < 65536"
    using vm_inv_mapped(1) [OF assms(1,2) PDX_user [OF assms(3)] PTX_less e] vm_inv_npages [OF assms(1)] by simp
  note tb = link_table [OF sh assms(2-5), of _ ?p]
  have x: "?x \<in> slots D s q \<longleftrightarrow> q = ?p" for q
    using e assms(2) PDX_user [OF assms(3)] by (auto simp: slots_def)
  have sl: "slots D ?s q = slots D s q" for q
    using slots_write [OF link_entry [OF sh assms(2-5) p16] assms(2) PDX_user [OF assms(3)] PTX_less, of q]
      new_pte(2) [OF p16 assms(5)] x [of q] by auto
  have tabs: "tables D ?s = tables D s" by (rule tables_cong) (rule tb)
  have shape: "pt_shape D ?s" using pt_shape_cong [of D ?s s] tb sh by simp
  from assms(1) shape show ?thesis by (simp add: vm_inv_def sl tabs)
qed

subsection \<open>page_insert\<close>

text \<open>
  The result of \<open>page_insert\<close> for a page that is in use: it runs out of memory before touching
  anything, or it installs exactly one entry and moves exactly the counts it has to.
\<close>

definition vm_only :: "kstate \<Rightarrow> kstate \<Rightarrow> bool" where
  "vm_only s s' \<longleftrightarrow> npages s' = npages s \<and> kern_pgdir s' = kern_pgdir s \<and> envs s' = envs s \<and>
     env_free_list s' = env_free_list s \<and> cpus s' = cpus s \<and> cpunum s' = cpunum s \<and> cr3 s' = cr3 s \<and>
     kernel_lock s' = kernel_lock s"

lemma vm_only_refl [simp]: "vm_only s s"
  by (simp add: vm_only_def)

lemma vm_only_trans: "vm_only s t \<Longrightarrow> vm_only t u \<Longrightarrow> vm_only s u"
  by (simp add: vm_only_def)

lemma vm_only_ops [simp]:
  "vm_only s (link_page d va t p perm s') = vm_only s s'" "vm_only s (ref_inc p s') = vm_only s s'"
  "vm_only s (unmap d va s') = vm_only s s'" "vm_only s (add_table d i p s') = vm_only s s'"
  "vm_only (add_table d i p s) s' = vm_only s s'"
  by (simp_all add: vm_only_def)

lemma vm_only_curenv: "vm_only s s' \<Longrightarrow> curenv s' = curenv s"
  by (simp add: vm_only_def curenv_def)

definition inserted :: "nat set \<Rightarrow> nat \<Rightarrow> u32 \<Rightarrow> nat \<Rightarrow> u32 \<Rightarrow> kstate \<Rightarrow> kstate \<Rightarrow> bool" where
  "inserted D d va p perm s s' \<longleftrightarrow> vm_inv D s' \<and> vm_only s s' \<and>
     (\<forall>d' \<in> D. \<forall>i < 955. \<forall>j. entry s' d' i j =
       (if d' = d \<and> i = unat (PDX va) \<and> j = unat (PTX va) then Some (page2pa p OR PTE_P OR perm)
        else entry s d' i j))"

definition insert_ref :: "nat \<Rightarrow> u32 \<Rightarrow> nat \<Rightarrow> kstate \<Rightarrow> nat \<Rightarrow> u16" where
  "insert_ref d va p s q =
    (let r = pp_ref (pages s q) in
     case entry s d (unat (PDX va)) (unat (PTX va)) of
       None \<Rightarrow> if q = p then r + 1 else r
     | Some pte \<Rightarrow> if frame_of pte = p then r
         else if q = p then r + 1 else if q = frame_of pte then r - 1 else r)"

text \<open>\<open>insertable D p s\<close>: the page is in use as data, and its count does not overflow.\<close>

definition insertable :: "nat set \<Rightarrow> nat \<Rightarrow> kstate \<Rightarrow> bool" where
  "insertable D p s \<longleftrightarrow> p < npages s \<and> p \<notin> set (free_pages s) \<and> p \<notin> D \<union> tables D s \<and>
     unat (pp_ref (pages s p)) < 65535"

lemma page_insert_settled:
  assumes "vm_inv D s" "d \<in> D" "va < UTOP" "table s d (unat (PDX va)) = Some t"
    and "insert_page d pp va t (unat (PTX va)) s = Some (p, s1)"
  shows "page_insert d pp va perm s = Some (0, link_page d va t p perm s1)"
proof -
  have "pgdir_walk d va True s = Some (Some (t, unat (PTX va)), s)"
    using shapeD(1) [OF vm_inv_shape [OF assms(1)] assms(2) PDX_user [OF assms(3)] assms(4)]
    by (rule walk_present [OF assms(4)])
  then show ?thesis using assms(5) by (simp add: page_insert_def link_page_def Let_def)
qed

lemma entry_present: "table s d i = Some t \<Longrightarrow> has (mem s t j) PTE_P \<longleftrightarrow> entry s d i j \<noteq> None"
  by (simp add: entry_def)

lemma ref_inc_shape:
  "pt_shape D (ref_inc p s) = pt_shape D s" "table (ref_inc p s) = table s" "entry (ref_inc p s) = entry s"
  using pt_shape_cong [of D "ref_inc p s" s] table_mem [of "ref_inc p s" s] entry_mem [of "ref_inc p s" s]
  by auto

lemma insert_unmapped:
  assumes "vm_inv D s" "d \<in> D" "va < UTOP" "table s d (unat (PDX va)) = Some t" "perm < 4096"
    "insertable D p s" and none: "entry s d (unat (PDX va)) (unat (PTX va)) = None"
  shows "\<exists>s'. page_insert d (Some p) va perm s = Some (0, s') \<and> inserted D d va p perm s s' \<and>
    (\<forall>q. pp_ref (pages s' q) = insert_ref d va p s q)"
proof -
  have p: "p < npages s" "p \<notin> set (free_pages s)" "p \<notin> D \<union> tables D s" "unat (pp_ref (pages s p)) < 65535"
    using assms(6) by (auto simp: insertable_def)
  have p16: "p < 65536" using p(1) vm_inv_npages [OF assms(1)] by simp
  have run: "insert_page d (Some p) va t (unat (PTX va)) s = Some (p, ref_inc p s)"
    using none by (simp add: insert_page_def entry_present [OF assms(4)])
  have "inserted D d va p perm s (link_page d va t p perm (ref_inc p s))"
    using link_inv_new [OF assms(1-5) none p] link_entry [of D "ref_inc p s" d va t perm p]
      vm_inv_shape [OF assms(1)] assms(2-5) p16
    by (simp add: inserted_def ref_inc_shape)
  then show ?thesis
    using page_insert_settled [OF assms(1-4) run] none by (auto simp: insert_ref_def)
qed

lemma insert_same:
  assumes "vm_inv D s" "d \<in> D" "va < UTOP" "table s d (unat (PDX va)) = Some t" "perm < 4096"
    and same: "entry s d (unat (PDX va)) (unat (PTX va)) = Some pte" "frame_of pte = p"
    and pp: "pp = Some p \<or> pp = None"
  shows "\<exists>s'. page_insert d pp va perm s = Some (0, s') \<and> inserted D d va p perm s s' \<and>
    (\<forall>q. pp_ref (pages s' q) = pp_ref (pages s q))"
proof -
  have p16: "p < 65536"
    using vm_inv_mapped(1) [OF assms(1,2) PDX_user [OF assms(3)] PTX_less same(1)] same(2)
      vm_inv_npages [OF assms(1)] by simp
  have run: "insert_page d pp va t (unat (PTX va)) s = Some (p, s)"
    using same page_lookup_entry [OF assms(1-3)] pp
    by (auto simp: insert_page_def entry_present [OF assms(4)])
  have "inserted D d va p perm s (link_page d va t p perm s)"
    using link_inv_same [OF assms(1-5) same(1)] same(2)
      link_entry [OF vm_inv_shape [OF assms(1)] assms(2-5) p16] by (simp add: inserted_def)
  then show ?thesis using page_insert_settled [OF assms(1-4) run] by auto
qed

lemma insert_other:
  assumes "vm_inv D s" "d \<in> D" "va < UTOP" "table s d (unat (PDX va)) = Some t" "perm < 4096"
    "insertable D p s"
    and other: "entry s d (unat (PDX va)) (unat (PTX va)) = Some pte" "frame_of pte \<noteq> p"
  shows "\<exists>s'. page_insert d (Some p) va perm s = Some (0, s') \<and> inserted D d va p perm s s' \<and>
    (\<forall>q. pp_ref (pages s' q) = insert_ref d va p s q)"
proof -
  let ?u = "unmap d va s"
  note sh = vm_inv_shape [OF assms(1)] and px = PDX_user [OF assms(3)]
  have p: "p < npages s" "p \<notin> set (free_pages s)" "p \<notin> D \<union> tables D s" "unat (pp_ref (pages s p)) < 65535"
    using assms(6) by (auto simp: insertable_def)
  have run: "insert_page d (Some p) va t (unat (PTX va)) s = Some (p, ref_inc p ?u)"
    using other page_lookup_entry [OF assms(1-3)] page_remove_unmap [OF assms(1-3)]
    by (simp add: insert_page_def entry_present [OF assms(4)])
  note ui = unmap_inv [OF assms(1-3)] and ut = unmap_table [OF sh assms(2,3)]
  note ue = unmap_entry [OF sh assms(2,3)]
  have t: "table ?u d (unat (PDX va)) = Some t" using ut [OF assms(2)] assms(4) by simp
  have none: "entry ?u d (unat (PDX va)) (unat (PTX va)) = None" using ue [OF assms(2) px] by simp
  have pf: "p \<notin> set (free_pages ?u)" using unmap_free(2) [OF assms(1-3)] p(2) other by auto
  have pt: "p \<notin> D \<union> tables D ?u" using p(3) tables_cong [of D ?u s] ut by auto
  have pr: "unat (pp_ref (pages ?u p)) < 65535" using p(4) other by (auto simp: unmap_ref)
  have p16: "p < 65536" using p(1) vm_inv_npages [OF assms(1)] by simp
  have "inserted D d va p perm s (link_page d va t p perm (ref_inc p ?u))"
    using link_inv_new [OF ui assms(2,3) t assms(5) none _ pf pt pr] p(1) ue
      link_entry [of D "ref_inc p ?u" d va t perm p] vm_inv_shape [OF ui] assms(2,3,5) t p16
    by (simp add: inserted_def ref_inc_shape)
  then show ?thesis
    using page_insert_settled [OF assms(1-4) run] other by (auto simp: insert_ref_def unmap_ref)
qed

lemma insert_present:
  assumes "vm_inv D s" "d \<in> D" "va < UTOP" "table s d (unat (PDX va)) = Some t" "perm < 4096"
    "insertable D p s"
  shows "\<exists>s'. page_insert d (Some p) va perm s = Some (0, s') \<and> inserted D d va p perm s s' \<and>
    (\<forall>q. pp_ref (pages s' q) = insert_ref d va p s q)"
proof (cases "entry s d (unat (PDX va)) (unat (PTX va))")
  case None
  then show ?thesis by (rule insert_unmapped [OF assms])
next
  case (Some pte)
  then show ?thesis
    using insert_same [OF assms(1-5) Some, of p "Some p"] insert_other [OF assms Some]
    by (cases "frame_of pte = p") (auto simp: insert_ref_def)
qed

text \<open>With no table yet, the walk first takes a free page for one.\<close>

lemma insert_creates:
  assumes "vm_inv D s" "d \<in> D" "va < UTOP" "table s d (unat (PDX va)) = None" "perm < 4096"
    "insertable D p s" and fp: "free_pages s = r # rs"
  shows "\<exists>s'. page_insert d (Some p) va perm s = Some (0, s') \<and> inserted D d va p perm s s' \<and>
    (\<forall>q. q \<noteq> r \<longrightarrow> pp_ref (pages s' q) = insert_ref d va p s q) \<and> pp_ref (pages s' r) = 1"
proof -
  let ?a = "add_table d (unat (PDX va)) r s"
  note px = PDX_user [OF assms(3)]
  note tb = add_table_table [OF assms(1,2) fp]
  have inv: "vm_inv D ?a" "free_pages ?a = rs" using add_table_inv [OF assms(1,2) px fp assms(4)] by auto
  have t: "table ?a d (unat (PDX va)) = Some r" using tb [OF assms(2)] by simp
  have pr: "p \<noteq> r" "p \<notin> set rs" using assms(6) fp by (auto simp: insertable_def)
  have r0: "pp_ref (pages s r) = 0" "r < npages s" "r \<noteq> d"
    using assms(1) fp new_page_unused [OF assms(1) fp] assms(2) by (auto simp: vm_inv_def free_ok_def)
  have ref: "pp_ref (pages ?a q) = (if q = r then 1 else pp_ref (pages s q))" for q
    using r0 by (simp add: add_table_def)
  have "tables D ?a \<subseteq> insert r (tables D s)" by (auto simp: tables_def tb split: if_splits)
  then have ins: "insertable D p ?a" using assms(6) pr inv(2) by (auto simp: insertable_def ref)
  have "page_insert d (Some p) va perm s = page_insert d (Some p) va perm ?a"
    using walk_create [OF vm_inv_free [OF assms(1)] fp assms(4)] r0 walk_present [OF t]
    by (simp add: page_insert_def)
  moreover note insert_present [OF inv(1) assms(2,3) t assms(5) ins]
  moreover have "entry ?a d' i j = entry s d' i j" if "d' \<in> D" "i < 955" for d' i j
    by (rule add_table_entry [OF assms(1,2) fp assms(4) that])
  moreover have "entry s d (unat (PDX va)) (unat (PTX va)) = None" by (simp add: entry_def assms(4))
  ultimately show ?thesis using pr px assms(2)
    by (auto simp: inserted_def insert_ref_def ref)
qed

lemma insert_no_mem:
  assumes "free_ok s" "table s d (unat (PDX va)) = None" "free_pages s = []"
  shows "page_insert d pp va perm s = Some (- E_NO_MEM, s)"
  using walk_no_mem [OF assms(1,3,2)] by (simp add: page_insert_def)

subsection \<open>The interface of an address space\<close>

text \<open>
  What clients rely on when they unmap: \<open>look\<close> is the partial map that a directory represents,
  \<open>key\<close> the page an address belongs to, \<open>user\<close> the addresses that may be unmapped.
\<close>

locale address_space =
  fixes inv :: "'s \<Rightarrow> bool" and user :: "'v \<Rightarrow> bool" and key :: "'v \<Rightarrow> 'k"
    and look :: "'s \<Rightarrow> 'v \<Rightarrow> 'e option" and remove :: "'v \<Rightarrow> 's \<Rightarrow> 's option"
  assumes remove: "inv s \<Longrightarrow> user v \<Longrightarrow> \<exists>s'. remove v s = Some s' \<and> inv s' \<and>
      (\<forall>w. user w \<longrightarrow> look s' w = (if key w = key v then None else look s w))"
begin

lemma remove_inv: "inv s \<Longrightarrow> user v \<Longrightarrow> remove v s = Some s' \<Longrightarrow> inv s'"
  using remove by fastforce

lemma remove_look:
  "inv s \<Longrightarrow> user v \<Longrightarrow> remove v s = Some s' \<Longrightarrow> user w \<Longrightarrow>
   look s' w = (if key w = key v then None else look s w)"
  using remove [of s v] by auto

lemma remove_all:
  assumes "inv s" "\<forall>v \<in> set vs. user v"
  shows "\<exists>s'. mfold remove vs s = Some s' \<and> inv s' \<and>
    (\<forall>w. user w \<longrightarrow> look s' w = (if key w \<in> key ` set vs then None else look s w))"
  using assms
proof (induction vs arbitrary: s)
  case (Cons v vs)
  then obtain s1 where s1: "remove v s = Some s1" "inv s1"
    "\<forall>w. user w \<longrightarrow> look s1 w = (if key w = key v then None else look s w)"
    using remove [of s v] by auto
  with Cons.IH [of s1] Cons.prems show ?case by auto
qed auto

end

definition look :: "nat \<Rightarrow> kstate \<Rightarrow> u32 \<Rightarrow> u32 option" where
  "look d s va = entry s d (unat (PDX va)) (unat (PTX va))"

lemma same_page: "PGNUM v = PGNUM w \<longleftrightarrow> unat (PDX v) = unat (PDX w) \<and> unat (PTX v) = unat (PTX w)"
  unfolding PGNUM_eq_iff by (simp add: word_unat_eq_iff)

lemma vm_inv_empty:
  assumes "free_ok s" "d < npages s" "pp_ref (pages s d) = 1" "\<And>i. i < 955 \<Longrightarrow> \<not> has (mem s d i) PTE_P"
  shows "vm_inv {d} s"
proof -
  have tb: "table s d i = None" if "i < 955" for i using assms(4) that by (simp add: table_def)
  then have "slots {d} s p = {}" "tables {d} s = {}" for p by (auto simp: slots_def entry_def tables_def)
  with assms(1-3) tb show ?thesis by (auto simp: vm_inv_def pt_shape_def)
qed

interpretation as: address_space "\<lambda>s. vm_inv D s \<and> d \<in> D" "\<lambda>va. va < UTOP" PGNUM "look d" "page_remove d" for D d
proof
  fix s va
  assume a: "vm_inv D s \<and> d \<in> D" "va < UTOP"
  then show "\<exists>s'. page_remove d va s = Some s' \<and> (vm_inv D s' \<and> d \<in> D) \<and>
      (\<forall>w. w < UTOP \<longrightarrow> look d s' w = (if PGNUM w = PGNUM va then None else look d s w))"
    using page_remove_unmap [of D s d va] unmap_inv [of D s d va] unmap_entry [of D s d va d]
      vm_inv_shape [of D s] PDX_user
    by (auto simp: look_def same_page)
qed

subsection \<open>Cached translations\<close>

text \<open>The TLB agrees with the page tables the processor uses, for user addresses.\<close>

definition tlb_ok :: "kstate \<Rightarrow> bool" where
  "tlb_ok s \<longleftrightarrow> (\<forall>va pte. va < UTOP \<longrightarrow> tlb s (PGNUM va) = Some pte \<longrightarrow> look (cr3 s) s va = Some pte)"

text \<open>The processor runs on the directory of the current environment.\<close>

definition cr3_ok :: "kstate \<Rightarrow> bool" where
  "cr3_ok s \<longleftrightarrow> (case curenv s of None \<Rightarrow> True | Some e \<Rightarrow> env_pgdir (envs s e) = Some (cr3 s))"

lemma unmap_tlb:
  assumes "cr3_ok s"
  shows "tlb (unmap d va s) (PGNUM w) =
    (if look d s va \<noteq> None \<and> PGNUM w = PGNUM va \<and> (d = cr3 s \<or> curenv s = None) then None else tlb s (PGNUM w))"
proof (cases "look d s va")
  case None
  then show ?thesis by (simp add: unmap_def look_def)
next
  case (Some pte)
  then have u: "unmap d va s = tlb_invalidate d va (mem_set (the (table s d (unat (PDX va)))) (unat (PTX va)) 0
                   (drop_ref (frame_of pte) s))"
    by (simp add: unmap_def look_def)
  show ?thesis using assms unfolding u by (auto simp: Some cr3_ok_def tlb_invalidate_def split: option.splits)
qed

subsection \<open>An example machine\<close>

text \<open>Two free pages and one empty page directory in frame 280.\<close>

definition vm_demo :: kstate where
  "vm_demo = page_upd 280 (\<lambda>p. p\<lparr>pp_ref := 1\<rparr>) two_free"

lemma vm_demo_simps [simp]:
  "npages vm_demo = 1024" "free_ok vm_demo" "free_pages vm_demo = [300, 301]"
  "mem vm_demo f i = 0" "pp_ref (pages vm_demo q) = (if q = 280 then 1 else 0)"
  "envs vm_demo = envs boot_state" "curenv vm_demo = None" "cr3 vm_demo = 272"
  "tlb vm_demo = Map.empty"
  by (simp_all add: vm_demo_def free_ok_ref)
    (auto simp: two_free_def curenv_def)

lemma vm_demo_inv: "vm_inv {280} vm_demo"
  by (rule vm_inv_empty) (simp_all add: has_def)

lemma vm_demo_insertable: "insertable {280} 290 vm_demo"
  by (auto simp: insertable_def tables_def table_def has_def)

text \<open>The same machine with page 290 mapped writable at \<^verbatim>\<open>0x800000\<close>.\<close>

definition vm_mapped :: kstate where
  "vm_mapped = snd (the (page_insert 280 (Some 290) 0x800000 7 vm_demo))"

lemma demo_va [simp]: "(0x800000 :: u32) < UTOP" "unat (PDX 0x800000) = 2" "unat (PTX 0x800000) = 0"
  by (simp_all add: unat_PDX unat_PTX layout)

lemma demo_pte: "page2pa 290 OR 1 OR 7 = (0x122007 :: u32)" "frame_of 0x122007 = 290"
  by (simp_all add: page2pa_def push_bit_eq_mult frame_of_def unat_PGNUM)

lemma vm_mapped_run: "page_insert 280 (Some 290) 0x800000 7 vm_demo = Some (0, vm_mapped)"
  and vm_mapped_inv: "vm_inv {280} vm_mapped"
  and vm_mapped_look: "look 280 vm_mapped 0x800000 = Some 0x122007"
  and vm_mapped_ref: "pp_ref (pages vm_mapped 290) = 1"
  and vm_mapped_only: "vm_only vm_demo vm_mapped"
proof -
  have n: "table vm_demo d i = None" for d i by (simp add: table_def has_def)
  obtain s' where s': "page_insert 280 (Some 290) 0x800000 7 vm_demo = Some (0, s')"
    and i: "inserted {280} 280 0x800000 290 7 vm_demo s'"
    and r: "pp_ref (pages s' 290) = insert_ref 280 0x800000 290 vm_demo 290"
    using insert_creates [OF vm_demo_inv _ demo_va(1) n _ vm_demo_insertable, of 280 7 300 "[301]"] by auto
  have eq: "vm_mapped = s'" by (simp add: vm_mapped_def s')
  show "page_insert 280 (Some 290) 0x800000 7 vm_demo = Some (0, vm_mapped)" by (simp add: eq s')
  show "vm_inv {280} vm_mapped" "look 280 vm_mapped 0x800000 = Some 0x122007"
    using i demo_pte(1) by (auto simp: eq inserted_def look_def)
  show "vm_only vm_demo vm_mapped" using i by (simp add: eq inserted_def)
  show "pp_ref (pages vm_mapped 290) = 1" by (simp add: eq r insert_ref_def entry_def n)
qed

lemma vm_mapped_eq:
  "vm_mapped = link_page 280 0x800000 300 290 7 (ref_inc 290 (add_table 280 2 300 vm_demo))"
proof -
  have "pgdir_walk 280 0x800000 True vm_demo = Some (Some (300, 0), add_table 280 2 300 vm_demo)"
    using walk_create [of vm_demo 300 "[301]" 280 "0x800000"] by (simp add: table_def has_def)
  then show ?thesis
    by (simp add: vm_mapped_def page_insert_def insert_page_def link_page_def add_table_def has_def)
qed

lemma vm_mapped_mem:
  "mem vm_mapped f i = (if f = 280 \<and> i = 2 then 0x12C007 else if f = 300 \<and> i = 0 then 0x122007 else 0)"
  by (simp add: vm_mapped_eq link_page_def add_table_def page2pa_def push_bit_eq_mult)

subsection \<open>Properties\<close>

text \<open>C1: \<open>page_insert\<close> refines the update of one entry. For a user address of a known directory
  and a page that is in use, it either reports \<open>E_NO_MEM\<close> with the state unchanged (no table for
  the address and no free page), or succeeds: the new entry holds the page and \<open>perm | PTE_P\<close>,
  every other entry of every directory is as before, and the invariant (ownership of tables,
  reference counts) still holds.\<close>

theorem page_insert_refines:
  assumes "vm_inv D s" "d \<in> D" "va < UTOP" "perm < 4096" "insertable D p s"
  shows "(free_pages s = [] \<and> page_insert d (Some p) va perm s = Some (- E_NO_MEM, s)) \<or>
    (\<exists>s'. page_insert d (Some p) va perm s = Some (0, s') \<and> inserted D d va p perm s s')"
proof (cases "table s d (unat (PDX va))")
  case None
  then show ?thesis
    using insert_no_mem [OF vm_inv_free [OF assms(1)] None] insert_creates [OF assms(1-3) None assms(4,5)]
    by (cases "free_pages s") auto
next
  case (Some t)
  then show ?thesis using insert_present [OF assms(1-3) Some assms(4,5)] by blast
qed

theorem page_insert_refines_witness:
  "\<exists>s'. page_insert 280 (Some 290) 0x800000 7 vm_demo = Some (0, s') \<and> vm_inv {280} s' \<and>
     entry s' 280 2 0 = Some 0x122007"
proof -
  have u: "(0x800000 :: u32) < UTOP" by (simp add: layout)
  have i: "unat (PDX 0x800000) = 2" "unat (PTX 0x800000) = 0" by (simp_all add: unat_PDX unat_PTX)
  have "page2pa 290 OR 1 OR 7 = (0x122007 :: u32)" by (simp add: page2pa_def push_bit_eq_mult)
  then show ?thesis
    using page_insert_refines [OF vm_demo_inv _ u _ vm_demo_insertable, of 280 7]
    by (auto simp: inserted_def i)
qed

text \<open>C10: the reference counts after a successful \<open>page_insert\<close>: the inserted page gains one
  reference unless it was already mapped at that address, a different page that was mapped there
  loses one, a page taken from the free list for a new table ends with one, and no other count
  changes.\<close>

theorem page_insert_refs:
  assumes "vm_inv D s" "d \<in> D" "va < UTOP" "perm < 4096" "insertable D p s"
    and "page_insert d (Some p) va perm s = Some (0, s')"
  shows "\<forall>q. pp_ref (pages s' q) =
    (if table s d (unat (PDX va)) = None \<and> free_pages s \<noteq> [] \<and> q = hd (free_pages s) then 1
     else insert_ref d va p s q)"
proof (cases "table s d (unat (PDX va))")
  case None
  have "free_pages s \<noteq> []"
    using insert_no_mem [OF vm_inv_free [OF assms(1)] None, of "Some p" perm] assms(6) by auto
  then show ?thesis
    using insert_creates [OF assms(1-3) None assms(4,5)] assms(6) None by (cases "free_pages s") auto
next
  case (Some t)
  then show ?thesis using insert_present [OF assms(1-3) Some assms(4,5)] assms(6) by auto
qed

theorem page_insert_refs_witness:
  "\<exists>s'. page_insert 280 (Some 290) 0x800000 7 vm_demo = Some (0, s') \<and>
     pp_ref (pages s' 290) = 1 \<and> pp_ref (pages s' 300) = 1 \<and> pp_ref (pages s' 301) = 0"
proof -
  have u: "(0x800000 :: u32) < UTOP" by (simp add: layout)
  have n: "table vm_demo d i = None" for d i by (simp add: table_def has_def)
  obtain s' where s': "page_insert 280 (Some 290) 0x800000 7 vm_demo = Some (0, s')"
    using insert_creates [OF vm_demo_inv _ u n _ vm_demo_insertable, of 280 7 300 "[301]"] by auto
  show ?thesis
    using page_insert_refs [OF vm_demo_inv _ u _ vm_demo_insertable s'] s'
    by (auto simp: n insert_ref_def entry_def)
qed

text \<open>C2: \<open>page_remove\<close> clears exactly the entry of its page, gives the mapped page's reference
  back (the page returns to the free list when it was the last), and keeps the invariant; on an
  unmapped address it changes nothing.\<close>

theorem page_remove_refines:
  assumes "vm_inv D s" "d \<in> D" "va < UTOP"
  shows "\<exists>s'. page_remove d va s = Some s' \<and> vm_inv D s' \<and>
    (\<forall>w < UTOP. look d s' w = (if PGNUM w = PGNUM va then None else look d s w)) \<and>
    (\<forall>d' \<in> D - {d}. \<forall>w < UTOP. look d' s' w = look d' s w) \<and>
    (case look d s va of None \<Rightarrow> s' = s
     | Some pte \<Rightarrow> (\<forall>q. pp_ref (pages s' q) = pp_ref (pages s q) - (if q = frame_of pte then 1 else 0)) \<and>
         (frame_of pte \<in> set (free_pages s') \<longleftrightarrow> pp_ref (pages s (frame_of pte)) = 1))"
proof -
  have 1: "vm_inv D (unmap d va s)" by (rule unmap_inv [OF assms])
  have 2: "look d' (unmap d va s) w = (if d' = d \<and> PGNUM w = PGNUM va then None else look d' s w)"
    if "w < UTOP" "d' \<in> D" for w d'
    using unmap_entry [OF vm_inv_shape [OF assms(1)] assms(2,3) that(2) PDX_user [OF that(1)]]
    by (auto simp: look_def same_page)
  have 3: "frame_of pte \<in> set (free_pages (unmap d va s)) \<longleftrightarrow> pp_ref (pages s (frame_of pte)) = 1"
    if "look d s va = Some pte" for pte
  proof -
    note e = that [unfolded look_def]
    note m = vm_inv_mapped [OF assms(1,2) PDX_user [OF assms(3)] PTX_less e]
    show ?thesis using drop_ref_free [OF vm_inv_free [OF assms(1)] m(1,2)] m(2) by (auto simp: unmap_def e)
  qed
  show ?thesis using page_remove_unmap [OF assms] 1 2 3 assms(2)
    by (auto simp: look_def unmap_ref split: option.split) (simp add: unmap_def)
qed

theorem page_remove_refines_witness:
  "\<exists>s'. page_remove 280 0x800000 vm_mapped = Some s' \<and> look 280 s' 0x800000 = None \<and>
     290 \<in> set (free_pages s')"
  using page_remove_refines [OF vm_mapped_inv, of 280 "0x800000"]
  by (auto simp: vm_mapped_look vm_mapped_ref demo_pte)

text \<open>C11: \<open>page_remove\<close> leaves no stale translation behind: when the cached user translations agree
  with the page tables the processor runs on, they still do after removing a page from any
  directory, the current one or another.\<close>

theorem page_remove_coherent:
  assumes "vm_inv D s" "d \<in> D" "cr3 s \<in> D" "cr3_ok s" "tlb_ok s" "va < UTOP"
  shows "\<exists>s'. page_remove d va s = Some s' \<and> tlb_ok s'"
proof -
  have "look (cr3 s) (unmap d va s) w = Some pte"
    if "w < UTOP" "tlb (unmap d va s) (PGNUM w) = Some pte" for w pte
  proof -
    have c: "tlb s (PGNUM w) = Some pte" "\<not> (look d s va \<noteq> None \<and> PGNUM w = PGNUM va \<and> d = cr3 s)"
      using that(2) unmap_tlb [OF assms(4), of d va w] by (auto split: if_splits)
    then have l: "look (cr3 s) s w = Some pte" using assms(5) that(1) by (auto simp: tlb_ok_def)
    with c have "\<not> (PGNUM w = PGNUM va \<and> d = cr3 s)" by (auto simp: look_def same_page)
    then show ?thesis
      using l unmap_entry [OF vm_inv_shape [OF assms(1)] assms(2,6,3) PDX_user [OF that(1)]]
      by (auto simp: look_def same_page)
  qed
  then show ?thesis using page_remove_unmap [OF assms(1,2,6)] by (auto simp: tlb_ok_def)
qed

definition vm_cached :: kstate where
  "vm_cached = vm_mapped\<lparr>cr3 := 280, tlb := [PGNUM 0x800000 \<mapsto> 0x122007]\<rparr>"

lemma vm_cached_same: "mem vm_cached = mem vm_mapped" "pages vm_cached = pages vm_mapped"
  "npages vm_cached = npages vm_mapped" "free_pages vm_cached = free_pages vm_mapped"
  "free_ok vm_cached = free_ok vm_mapped" "curenv vm_cached = curenv vm_mapped"
  "cr3 vm_cached = 280" "tlb vm_cached = [PGNUM 0x800000 \<mapsto> 0x122007]"
  by (simp_all add: vm_cached_def free_pages_def free_ok_def page_next_def [abs_def] curenv_def)

lemma vm_cached_look: "look d vm_cached = look d vm_mapped"
  by (rule ext) (simp add: look_def entry_mem [OF vm_cached_same(1)])

lemma vm_cached_inv: "vm_inv {280} vm_cached"
  by (rule vm_inv_cong [THEN iffD2, OF _ _ _ _ vm_mapped_inv]) (simp_all add: vm_cached_def)

lemma vm_cached_tlb: "tlb_ok vm_cached" and vm_cached_cr3: "cr3_ok vm_cached"
proof -
  have "look 280 vm_mapped va = Some 0x122007" if "PGNUM va = PGNUM 0x800000" for va
    using vm_mapped_look that by (simp add: look_def same_page)
  then show "tlb_ok vm_cached" by (auto simp: tlb_ok_def vm_cached_same vm_cached_look split: if_splits)
  show "cr3_ok vm_cached"
    using vm_only_curenv [OF vm_mapped_only] by (simp add: cr3_ok_def vm_cached_same)
qed

theorem page_remove_coherent_witness:
  "\<exists>s'. tlb vm_cached (PGNUM 0x800000) \<noteq> None \<and> page_remove 280 0x800000 vm_cached = Some s' \<and> tlb_ok s'"
  using page_remove_coherent [OF vm_cached_inv _ _ vm_cached_cr3 vm_cached_tlb demo_va(1), of 280]
  by (auto simp: vm_cached_same)

text \<open>C14: re-inserting a mapped page with other permissions does not invalidate the TLB, although the
  comment on \<open>page_insert\<close> requires it: when the current directory's translation of the page is
  cached, the call succeeds and leaves the cached entry stale.\<close>

theorem page_insert_same_page_stale:
  assumes "vm_inv D s" "cr3 s \<in> D" "va < UTOP" "perm < 4096"
    and "look (cr3 s) s va = Some pte" "tlb s (PGNUM va) = Some pte"
    and "pte \<noteq> page2pa (frame_of pte) OR PTE_P OR perm"
  shows "\<exists>s'. page_insert (cr3 s) (Some (frame_of pte)) va perm s = Some (0, s') \<and> \<not> tlb_ok s'"
proof -
  note e = assms(5) [unfolded look_def]
  obtain t where t: "table s (cr3 s) (unat (PDX va)) = Some t" using entry_table [OF e] by auto
  let ?s = "link_page (cr3 s) va t (frame_of pte) perm s"
  have run: "insert_page (cr3 s) (Some (frame_of pte)) va t (unat (PTX va)) s = Some (frame_of pte, s)"
    using e page_lookup_entry [OF assms(1-3)] by (simp add: insert_page_def entry_present [OF t])
  have "frame_of pte < 65536"
    using vm_inv_mapped(1) [OF assms(1,2) PDX_user [OF assms(3)] PTX_less e] vm_inv_npages [OF assms(1)]
    by simp
  then have "look (cr3 s) ?s va = Some (page2pa (frame_of pte) OR PTE_P OR perm)"
    using link_entry [OF vm_inv_shape [OF assms(1)] assms(2,3) t assms(4) _ assms(2) PDX_user [OF assms(3)]]
    by (simp add: look_def)
  then have "\<not> tlb_ok ?s" using assms(3,6,7) by (auto simp: tlb_ok_def)
  then show ?thesis using page_insert_settled [OF assms(1-3) t run] by blast
qed

theorem page_insert_same_page_stale_witness:
  "\<exists>s'. page_insert 280 (Some 290) 0x800000 5 vm_cached = Some (0, s') \<and> \<not> tlb_ok s'"
proof -
  have "(0x122007 :: u32) \<noteq> page2pa (frame_of 0x122007) OR PTE_P OR 5"
    by (simp add: demo_pte(2)) (simp add: page2pa_def push_bit_eq_mult)
  then show ?thesis
    using page_insert_same_page_stale [OF vm_cached_inv _ demo_va(1), of 5 "0x122007"]
    by (simp add: vm_cached_same vm_cached_look vm_mapped_look demo_pte(2))
qed

end
