(* ===== verification/User_Mem.thy ===== *)
theory User_Mem
  imports Page_Table
begin

text \<open>
  The kernel's view of user memory: the range check \<open>user_mem_check\<close> of \<^verbatim>\<open>kernel/pmap.c\<close>, and
  the loads and stores the kernel makes through user addresses once a check has passed. The
  lemmas characterise the check: it accepts a range exactly when every address of it is below
  \<open>ULIM\<close> and mapped with the permissions, and otherwise records the first bad address.
\<close>

subsection \<open>The check\<close>

text \<open>
  \<open>um_loop n\<close> is the loop of \<^verbatim>\<open>user_mem_check\<close> with \<open>n\<close> rounds left; it returns the page at
  which the code jumps to \<^verbatim>\<open>ERR\<close>. Both bounds are page-aligned, so the loop condition
  \<^verbatim>\<open>start < end\<close> holds for exactly \<open>(end - start) / PGSIZE\<close> rounds.
\<close>

fun um_loop :: "nat \<Rightarrow> nat \<Rightarrow> u32 \<Rightarrow> u32 \<Rightarrow> kstate \<Rightarrow> u32 option option" where
  "um_loop 0 pgdir perm start s = Some None"
| "um_loop (Suc n) pgdir perm start s = do {
     (cur_pte, _) \<leftarrow> pgdir_walk pgdir start False s;
     case cur_pte of
       None \<Rightarrow> Some (Some start)
     | Some (f, i) \<Rightarrow>
         if \<not> has (mem s f i) PTE_P then Some (Some start)
         else if (mem s f i) AND perm \<noteq> perm then Some (Some start)
         else if start \<ge> ULIM then Some (Some start)
         else um_loop n pgdir perm (start + PGSIZE) s
   }"

definition page_start :: "u32 \<Rightarrow> u32" where
  "page_start va = (if va AND (PGSIZE - 1) \<noteq> 0 then ROUNDDOWN va PGSIZE else va)"

definition page_end :: "u32 \<Rightarrow> u32" where
  "page_end va = (if va AND (PGSIZE - 1) \<noteq> 0 then ROUNDUP va PGSIZE else va)"

definition user_mem_check :: "nat \<Rightarrow> u32 \<Rightarrow> u32 \<Rightarrow> u32 \<Rightarrow> kstate \<Rightarrow> (int \<times> kstate) option" where
  "user_mem_check env va len perm s = do {
     let start = page_start va;
     let end_va = page_end (va + len);
     pgdir \<leftarrow> env_pgdir (envs s env);
     bad \<leftarrow> um_loop ((unat end_va - unat start) div 4096) pgdir (perm OR PTE_P) start s;
     case bad of
       None \<Rightarrow> Some (0, s)
     | Some b \<Rightarrow>
         if b = ROUNDDOWN va PGSIZE then Some (- E_FAULT, s\<lparr>user_mem_check_addr := va\<rparr>)
         else Some (- E_FAULT, s\<lparr>user_mem_check_addr := b\<rparr>)
   }"

subsection \<open>Kernel accesses through user addresses\<close>

text \<open>
  The translation the processor makes in kernel mode with \<^verbatim>\<open>CR0_WP\<close> set: both levels present,
  and writable at both levels for a store. A failed translation is a kernel page fault, which
  panics. Words are little endian.
\<close>

definition hw_walk :: "kstate \<Rightarrow> bool \<Rightarrow> u32 \<Rightarrow> (nat \<times> nat) option" where
  "hw_walk s write va =
    (let pde = mem s (cr3 s) (unat (PDX va)); pte = mem s (unat (PGNUM pde)) (unat (PTX va)) in
     if has pde PTE_P \<and> has pte PTE_P \<and> (write \<longrightarrow> has pde PTE_W \<and> has pte PTE_W)
     then Some (unat (PGNUM pte), unat (PGOFF va)) else None)"

definition get_byte :: "u32 \<Rightarrow> nat \<Rightarrow> u8" where
  "get_byte w k = ucast (drop_bit (8 * k) w)"

definition set_byte :: "u32 \<Rightarrow> nat \<Rightarrow> u8 \<Rightarrow> u32" where
  "set_byte w k b = (w AND NOT (push_bit (8 * k) 0xFF)) OR push_bit (8 * k) (ucast b)"

definition kread8 :: "kstate \<Rightarrow> u32 \<Rightarrow> u8 option" where
  "kread8 s va = do {
     (f, off) \<leftarrow> hw_walk s False va;
     Some (get_byte (mem s f (off div 4)) (off mod 4))
   }"

definition kwrite8 :: "u32 \<Rightarrow> u8 \<Rightarrow> kstate \<Rightarrow> kstate option" where
  "kwrite8 va b s = do {
     (f, off) \<leftarrow> hw_walk s True va;
     Some (mem_set f (off div 4) (set_byte (mem s f (off div 4)) (off mod 4) b) s)
   }"

definition kread32 :: "kstate \<Rightarrow> u32 \<Rightarrow> u32 option" where
  "kread32 s va = do {
     b0 \<leftarrow> kread8 s va;
     b1 \<leftarrow> kread8 s (va + 1);
     b2 \<leftarrow> kread8 s (va + 2);
     b3 \<leftarrow> kread8 s (va + 3);
     Some (ucast b0 OR push_bit 8 (ucast b1) OR push_bit 16 (ucast b2) OR push_bit 24 (ucast b3))
   }"

definition kwrite32 :: "u32 \<Rightarrow> u32 \<Rightarrow> kstate \<Rightarrow> kstate option" where
  "kwrite32 va v s = do {
     s \<leftarrow> kwrite8 va (get_byte v 0) s;
     s \<leftarrow> kwrite8 (va + 1) (get_byte v 1) s;
     s \<leftarrow> kwrite8 (va + 2) (get_byte v 2) s;
     kwrite8 (va + 3) (get_byte v 3) s
   }"

text \<open>The string at a user address, up to its terminator; \<open>None\<close> also when there is none.\<close>

partial_function (option) kread_str :: "kstate \<Rightarrow> u32 \<Rightarrow> u8 list option" where
  "kread_str s va = do {
     b \<leftarrow> kread8 s va;
     if b = 0 then Some []
     else do { bs \<leftarrow> kread_str s (va + 1); Some (b # bs) }
   }"

text \<open>The \<open>n\<close> bytes at a user address.\<close>

fun kread_bytes :: "kstate \<Rightarrow> u32 \<Rightarrow> nat \<Rightarrow> u8 list option" where
  "kread_bytes s va 0 = Some []"
| "kread_bytes s va (Suc n) = do {
     b \<leftarrow> kread8 s va;
     bs \<leftarrow> kread_bytes s (va + 1) n;
     Some (b # bs)
   }"

fun kwrite_bytes :: "u32 \<Rightarrow> u8 list \<Rightarrow> kstate \<Rightarrow> kstate option" where
  "kwrite_bytes va [] s = Some s"
| "kwrite_bytes va (b # bs) s = do {
     s \<leftarrow> kwrite8 va b s;
     kwrite_bytes (va + 1) bs s
   }"

subsection \<open>Rounding to pages\<close>

lemma page_mask: "va AND (PGSIZE - 1) = PGOFF va"
  by (simp add: PGOFF_def)

lemma unat_page_start: "unat (page_start va) = unat va div 4096 * 4096"
proof (cases "PGOFF va = 0")
  case True
  then have "unat va mod 4096 = 0" using unat_PGOFF [of va] by simp
  then have "unat va div 4096 * 4096 = unat va" by (simp add: mod_eq_0_iff_dvd)
  with True show ?thesis unfolding page_start_def page_mask by simp
next
  case False
  then show ?thesis unfolding page_start_def page_mask by (simp add: unat_ROUNDDOWN)
qed

lemma page_start_ROUNDDOWN: "page_start va = ROUNDDOWN va PGSIZE"
  by (rule word_unat_eqI) (simp add: unat_page_start unat_ROUNDDOWN)

lemma unat_page_end:
  assumes "unat va + 4096 \<le> 2 ^ 32"
  shows "unat (page_end va) = (unat va + 4095) div 4096 * 4096"
proof (cases "PGOFF va = 0")
  case True
  then obtain k where "unat va = 4096 * k" using unat_PGOFF [of va] by (auto simp: mod_eq_0_iff_dvd dvd_def)
  then have "(unat va + 4095) div 4096 * 4096 = unat va" by simp
  with True show ?thesis unfolding page_end_def page_mask by simp
next
  case False
  with assms unat_ROUNDUP [of PGSIZE va] show ?thesis unfolding page_end_def page_mask by simp
qed

lemma page_start_PGNUM: "PGNUM (page_start va) = PGNUM va"
  by (rule word_unat_eqI) (simp add: unat_PGNUM unat_page_start)

lemma PGNUM_offset:
  assumes "unat a mod 4096 = 0" "unat a \<le> unat w" "unat w < unat a + 4096"
  shows "PGNUM w = PGNUM a"
proof -
  obtain k where k: "unat a = 4096 * k" using assms(1) by (auto simp: mod_eq_0_iff_dvd dvd_def)
  then have "unat w div 4096 = k" using assms(2,3) by (intro div_nat_eqI) auto
  then show ?thesis by (intro word_unat_eqI) (simp add: unat_PGNUM k)
qed

subsection \<open>What the loop finds\<close>

definition dir_ok :: "nat \<Rightarrow> kstate \<Rightarrow> bool" where
  "dir_ok d s \<longleftrightarrow> (\<forall>i < 1024. \<forall>t. table s d i = Some t \<longrightarrow> t < npages s)"

definition accessible :: "kstate \<Rightarrow> nat \<Rightarrow> u32 \<Rightarrow> u32 \<Rightarrow> bool" where
  "accessible s d perm va \<longleftrightarrow> va < ULIM \<and>
     (\<exists>pte. look d s va = Some pte \<and> pte AND (perm OR PTE_P) = perm OR PTE_P)"

fun pages_from :: "nat \<Rightarrow> u32 \<Rightarrow> u32 list" where
  "pages_from 0 start = []"
| "pages_from (Suc n) start = start # pages_from n (start + PGSIZE)"

lemma um_loop_find:
  assumes "dir_ok d s"
  shows "um_loop n d (perm OR PTE_P) start s =
    Some (List.find (\<lambda>va. \<not> accessible s d perm va) (pages_from n start))"
proof (induction n arbitrary: start)
  case (Suc n)
  show ?case
  proof (cases "table s d (unat (PDX start))")
    case None
    then have "\<not> accessible s d perm start" by (simp add: accessible_def look_def entry_def)
    with None show ?thesis by (simp add: walk_absent)
  next
    case (Some t)
    then have "t < npages s" using assms PDX_less [of start] unfolding dir_ok_def by blast
    moreover have "look d s start = (if has (mem s t (unat (PTX start))) PTE_P then Some (mem s t (unat (PTX start))) else None)"
      by (simp add: look_def entry_def Some)
    ultimately show ?thesis
      by (auto simp: walk_present [OF Some] accessible_def Suc.IH not_less)
  qed
qed simp

lemma pages_from_nth: "k < n \<Longrightarrow> pages_from n start ! k = start + of_nat (k * 4096)"
proof (induction n arbitrary: start k)
  case (Suc n)
  then show ?case by (cases k) (auto simp: algebra_simps)
qed simp

lemma length_pages_from [simp]: "length (pages_from n start) = n"
  by (induction n arbitrary: start) auto

lemma accessible_page: "PGNUM v = PGNUM w \<Longrightarrow> accessible s d perm v = accessible s d perm w"
proof -
  assume pg: "PGNUM v = PGNUM w"
  then have "look d s v = look d s w" by (simp add: look_def same_page)
  moreover have "v < ULIM \<longleftrightarrow> w < ULIM"
  proof -
    have "x < ULIM \<longleftrightarrow> unat x div 4096 < 980992" for x
      by (simp add: word_less_nat_alt layout div_less_iff_less_mult)
    moreover have "unat v div 4096 = unat w div 4096" using pg by (metis unat_PGNUM)
    ultimately show ?thesis by simp
  qed
  ultimately show ?thesis by (simp add: accessible_def)
qed

text \<open>The pages from the one that holds \<open>va\<close> to the one that holds \<open>va + len - 1\<close>.\<close>

definition um_pages :: "u32 \<Rightarrow> u32 \<Rightarrow> u32 list" where
  "um_pages va len =
     pages_from ((unat (page_end (va + len)) - unat (page_start va)) div 4096) (page_start va)"

lemma user_mem_check_find:
  assumes "env_pgdir (envs s e) = Some d" "dir_ok d s"
  shows "user_mem_check e va len perm s =
    (case List.find (\<lambda>w. \<not> accessible s d perm w) (um_pages va len) of
       None \<Rightarrow> Some (0, s)
     | Some b \<Rightarrow> Some (- E_FAULT, s\<lparr>user_mem_check_addr := (if b = page_start va then va else b)\<rparr>))"
  using um_loop_find [OF assms(2), of _ perm "page_start va"]
  by (auto simp: user_mem_check_def assms(1) um_pages_def page_start_ROUNDDOWN split: option.split)

lemma um_pages_nth:
  assumes "unat va + unat len + 4096 \<le> 2 ^ 32" "0 < unat len" "k < length (um_pages va len)"
  shows "unat (um_pages va len ! k) = unat va div 4096 * 4096 + k * 4096"
    and "unat (um_pages va len ! k) < unat va + unat len"
proof -
  let ?n = "((unat va + unat len + 4095) div 4096 * 4096 - unat va div 4096 * 4096) div 4096"
  have sum: "unat (va + len) = unat va + unat len" using assms(1) by (intro unat_add_no_wrap) auto
  have n: "length (um_pages va len) = ?n"
    using assms(1) by (simp add: um_pages_def unat_page_start unat_page_end sum)
  have "?n = (unat va + unat len + 4095) div 4096 - unat va div 4096"
    by (simp flip: diff_mult_distrib)
  with assms(3) n have "unat va div 4096 + k < (unat va + unat len + 4095) div 4096" by linarith
  then have "(unat va div 4096 + k + 1) * 4096 \<le> (unat va + unat len + 4095) div 4096 * 4096"
    by (intro mult_le_mono1) simp
  also have "\<dots> \<le> unat va + unat len + 4095" by simp
  finally have b: "unat va div 4096 * 4096 + k * 4096 < unat va + unat len" by (simp add: algebra_simps)
  have "um_pages va len ! k = page_start va + of_nat (k * 4096)"
    using assms(3) unfolding um_pages_def by (intro pages_from_nth) simp
  moreover have "unat (of_nat (k * 4096) :: u32) = k * 4096" using b assms(1) by (intro unat_of_nat_u32) linarith
  ultimately show "unat (um_pages va len ! k) = unat va div 4096 * 4096 + k * 4096"
    using b assms(1) by (simp only:) (subst unat_add_no_wrap, simp_all add: unat_page_start)
  with b show "unat (um_pages va len ! k) < unat va + unat len" by simp
qed

lemma um_pages_cover:
  assumes "unat va + unat len + 4096 \<le> 2 ^ 32" "unat va \<le> unat w" "unat w < unat va + unat len"
  shows "\<exists>k < length (um_pages va len). PGNUM w = PGNUM (um_pages va len ! k)
    \<and> unat w div 4096 = unat va div 4096 + k"
proof -
  define k where "k = unat w div 4096 - unat va div 4096"
  have le: "unat va div 4096 \<le> unat w div 4096" using assms(2) by (rule div_le_mono)
  have len: "0 < unat len" using assms(2,3) by linarith
  have sum: "unat (va + len) = unat va + unat len" using assms(1) by (intro unat_add_no_wrap) auto
  have "(unat w div 4096 + 1) * 4096 \<le> unat w + 4096" by simp
  then have "unat w div 4096 + 1 \<le> (unat va + unat len + 4095) div 4096"
    using assms(3) by (simp add: less_eq_div_iff_mult_less_eq)
  then have kn: "k < length (um_pages va len)"
    using assms(1) le by (simp add: um_pages_def unat_page_start unat_page_end sum k_def flip: diff_mult_distrib)
      linarith
  have wk: "unat w div 4096 = unat va div 4096 + k" using le by (simp add: k_def)
  then have "unat (um_pages va len ! k) = unat w div 4096 * 4096"
    using um_pages_nth(1) [OF assms(1) len kn] by (simp add: algebra_simps)
  then have "PGNUM w = PGNUM (um_pages va len ! k)" by (intro word_unat_eqI) (simp add: unat_PGNUM)
  with kn wk show ?thesis by blast
qed

text \<open>The page at which the loop stops, as the first bad address of the range.\<close>

lemma um_all_good:
  assumes "unat va + unat len + 4096 \<le> 2 ^ 32" "List.find (\<lambda>w. \<not> accessible s d perm w) (um_pages va len) = None"
    and "unat va \<le> unat w" "unat w < unat va + unat len"
  shows "accessible s d perm w"
proof -
  obtain k where k: "k < length (um_pages va len)" "PGNUM w = PGNUM (um_pages va len ! k)"
    using um_pages_cover [OF assms(1,3,4)] by blast
  have "accessible s d perm (um_pages va len ! k)"
    using assms(2) k(1) by (metis find_None_iff nth_mem)
  with accessible_page [OF k(2)] show ?thesis by simp
qed

lemma um_first_bad:
  assumes "unat va + unat len + 4096 \<le> 2 ^ 32" "0 < unat len"
    and "List.find (\<lambda>w. \<not> accessible s d perm w) (um_pages va len) = Some b"
  shows "unat b < unat va + unat len" "\<not> accessible s d perm b"
    "b \<noteq> page_start va \<Longrightarrow> unat va \<le> unat b"
    "\<And>w. unat va \<le> unat w \<Longrightarrow> unat w < unat b \<Longrightarrow> accessible s d perm w"
proof -
  let ?xs = "um_pages va len"
  obtain k where k: "k < length ?xs" "?xs ! k = b" "\<not> accessible s d perm b"
    "\<And>j. j < k \<Longrightarrow> accessible s d perm (?xs ! j)"
    using assms(3) by (auto simp: find_Some_iff)
  have ub: "unat b = unat va div 4096 * 4096 + k * 4096" "unat b < unat va + unat len"
    using um_pages_nth [OF assms(1,2) k(1)] k(2) by auto
  show "unat b < unat va + unat len" "\<not> accessible s d perm b" by (rule ub, rule k)
  show "unat va \<le> unat b" if "b \<noteq> page_start va"
  proof -
    have "k \<noteq> 0" using that ub(1) by (auto intro!: word_unat_eqI simp: unat_page_start)
    have "unat va < (unat va div 4096 + 1) * 4096" using dividend_less_div_times [of 4096 "unat va"] by simp
    also have "\<dots> \<le> (unat va div 4096 + k) * 4096" using \<open>k \<noteq> 0\<close> by (intro mult_le_mono1) simp
    finally show ?thesis using ub(1) by (simp add: algebra_simps)
  qed
  fix w :: u32 assume w: "unat va \<le> unat w" "unat w < unat b"
  then have "unat w < unat va + unat len" using ub(2) by linarith
  from um_pages_cover [OF assms(1) w(1) this] obtain j
    where j: "j < length ?xs" "PGNUM w = PGNUM (?xs ! j)" "unat w div 4096 = unat va div 4096 + j" by blast
  have "unat w < (unat va div 4096 + k) * 4096" using w(2) ub(1) by (simp add: algebra_simps)
  then have "unat w div 4096 < unat va div 4096 + k" by (simp add: div_less_iff_less_mult)
  with j(3) have "j < k" by linarith
  then show "accessible s d perm w" using k(4) accessible_page [OF j(2)] by simp
qed

subsection \<open>Properties\<close>

text \<open>C3: for a non-empty range that does not reach the last page of the address space,
  \<open>user_mem_check\<close> returns 0 exactly when every address of the range is below \<open>ULIM\<close> and mapped
  with the requested permissions; otherwise it returns \<open>E_FAULT\<close> and records in
  \<open>user_mem_check_addr\<close> the first address of the range that is not accessible.\<close>

theorem user_mem_check_correct:
  assumes "env_pgdir (envs s e) = Some d" "dir_ok d s"
    and "unat va + unat len + 4096 \<le> 2 ^ 32" "0 < unat len"
  shows "(\<forall>w. unat va \<le> unat w \<and> unat w < unat va + unat len \<longrightarrow> accessible s d perm w) \<and>
      user_mem_check e va len perm s = Some (0, s) \<or>
    (\<exists>b. unat va \<le> unat b \<and> unat b < unat va + unat len \<and> \<not> accessible s d perm b \<and>
      (\<forall>w. unat va \<le> unat w \<and> unat w < unat b \<longrightarrow> accessible s d perm w) \<and>
      user_mem_check e va len perm s = Some (- E_FAULT, s\<lparr>user_mem_check_addr := b\<rparr>))"
proof (cases "List.find (\<lambda>w. \<not> accessible s d perm w) (um_pages va len)")
  case None
  with user_mem_check_find [OF assms(1,2), of va len perm] um_all_good [OF assms(3) None]
  show ?thesis by auto
next
  case (Some b)
  note bad = um_first_bad [OF assms(3,4) Some]
  note check = user_mem_check_find [OF assms(1,2), of va len perm, unfolded Some]
  show ?thesis
  proof (cases "b = page_start va")
    case True
    then have "\<not> accessible s d perm va"
      using bad(2) accessible_page [OF page_start_PGNUM, of s d perm va] by simp
    moreover have "user_mem_check e va len perm s = Some (- E_FAULT, s\<lparr>user_mem_check_addr := va\<rparr>)"
      using check True by simp
    ultimately show ?thesis using assms(4) by (intro disjI2 exI [of _ va]) auto
  next
    case False
    with check have "user_mem_check e va len perm s = Some (- E_FAULT, s\<lparr>user_mem_check_addr := b\<rparr>)" by simp
    with False bad show ?thesis by (intro disjI2 exI [of _ b]) auto
  qed
qed

definition um_demo :: kstate where
  "um_demo = env_upd 3 (\<lambda>e. e\<lparr>env_pgdir := Some 280\<rparr>) vm_mapped"

lemma um_demo_dir: "env_pgdir (envs um_demo 3) = Some 280" "dir_ok 280 um_demo"
  by (auto simp: um_demo_def dir_ok_def table_def vm_mapped_mem has_def unat_PGNUM
      vm_mapped_eq [THEN arg_cong, of npages] split: if_splits)

lemma um_demo_look:
  "look 280 um_demo va = (if unat va div 4096 = 2048 then Some 0x122007 else None)"
proof -
  have "unat (PDX va) = 2 \<and> unat (PTX va) = 0 \<longleftrightarrow> unat va div 4096 = 2048"
    using PGNUM_eq_iff [of va "0x800000"] by (simp add: word_unat_eq_iff unat_PGNUM)
  moreover have "mem um_demo = mem vm_mapped" by (simp add: um_demo_def)
  ultimately show ?thesis
    by (auto simp: look_def entry_def table_def vm_mapped_mem has_def unat_PGNUM)
qed

lemma um_demo_accessible:
  "accessible um_demo 280 6 va \<longleftrightarrow> unat va div 4096 = 2048"
  by (auto simp: accessible_def um_demo_look word_less_nat_alt layout)

theorem user_mem_check_correct_witness:
  "user_mem_check 3 0x800010 0x20 (PTE_U OR PTE_W) um_demo = Some (0, um_demo) \<and>
   user_mem_check 3 0x800010 0x1000 (PTE_U OR PTE_W) um_demo
     = Some (- E_FAULT, um_demo\<lparr>user_mem_check_addr := 0x801000\<rparr>)"
proof
  show "user_mem_check 3 0x800010 0x20 (PTE_U OR PTE_W) um_demo = Some (0, um_demo)"
    using user_mem_check_correct [OF um_demo_dir, of "0x800010" "0x20" 6] by (auto simp: um_demo_accessible)
  have "b = 0x801000" if "unat b < 0x801010" "unat b div 4096 \<noteq> 2048" "0x800010 \<le> unat b"
    "\<forall>w. 0x800010 \<le> unat w \<and> unat w < unat b \<longrightarrow> unat (w :: u32) div 4096 = 2048" for b :: u32
  proof -
    have "0x801000 \<le> unat b" using that(2,3) by linarith
    moreover have "unat b \<le> 0x801000" using that(4) [rule_format, of "0x801000"] by fastforce
    ultimately show ?thesis by (intro word_unat_eqI) simp
  qed
  moreover have "\<not> (\<forall>w :: u32. 0x800010 \<le> unat w \<and> unat w < 0x801010 \<longrightarrow> unat w div 4096 = 2048)"
    by (rule notI, drule spec [of _ "0x801000"]) simp
  ultimately show "user_mem_check 3 0x800010 0x1000 (PTE_U OR PTE_W) um_demo
     = Some (- E_FAULT, um_demo\<lparr>user_mem_check_addr := 0x801000\<rparr>)"
    using user_mem_check_correct [OF um_demo_dir, of "0x800010" "0x1000" 6] by (auto simp: um_demo_accessible)
qed

text \<open>C15: a range whose end wraps past the top of the address space to at or below its first page
  is accepted without looking at a single page, whatever is mapped there; kernel memory
  included.\<close>

theorem user_mem_check_wraps:
  assumes "env_pgdir (envs s e) = Some d" "unat (page_end (va + len)) \<le> unat va div 4096 * 4096"
  shows "user_mem_check e va len perm s = Some (0, s)"
  using assms by (simp add: user_mem_check_def unat_page_start)

theorem user_mem_check_wraps_witness:
  "let s = env_upd 3 (\<lambda>e. e\<lparr>env_pgdir := Some 280\<rparr>) boot_state in
   user_mem_check 3 0xF0100000 0x0FF00000 (PTE_U OR PTE_W) s = Some (0, s) \<and>
   \<not> accessible s 280 (PTE_U OR PTE_W) 0xF0100000"
  using user_mem_check_wraps [of "env_upd 3 (\<lambda>e. e\<lparr>env_pgdir := Some 280\<rparr>) boot_state" 3 280 "0xF0100000" "0x0FF00000" "6"]
  by (simp add: page_end_def accessible_def layout)

end
