(* ===== verification/Spinlock.thy ===== *)
theory Spinlock
  imports Kernel_State
begin

text \<open>
  The spin lock of \<^verbatim>\<open>kernel/spinlock.c\<close> with its debugging checks, in two forms. The functions
  are what one processor does with the lock when nothing interferes; a lock that is taken never
  returns, so the model has no result for it. The step relation \<open>lock_step\<close> interleaves the atomic
  accesses of any number of processors that each take and release the lock, and carries the
  mutual-exclusion proof. The saved call stack and the name of the lock are only printed, and
  are left out.
\<close>

subsection \<open>Operations\<close>

definition holding :: "nat \<Rightarrow> spinlock \<Rightarrow> bool" where
  "holding c lk \<longleftrightarrow> locked lk \<noteq> 0 \<and> lock_cpu lk = Some c"

definition spin_initlock :: "spinlock \<Rightarrow> spinlock" where
  "spin_initlock lk = lk\<lparr>locked := 0, lock_cpu := None\<rparr>"

text \<open>\<^verbatim>\<open>xchg(&lk->locked, v)\<close>: the old value and the lock after the exchange.\<close>

definition xchg_locked :: "u32 \<Rightarrow> spinlock \<Rightarrow> u32 \<times> spinlock" where
  "xchg_locked v lk = (locked lk, lk\<lparr>locked := v\<rparr>)"

definition spin_lock :: "nat \<Rightarrow> spinlock \<Rightarrow> spinlock option" where
  "spin_lock c lk = do {
     _ \<leftarrow> guard (\<not> holding c lk);
     let (old, lk) = xchg_locked 1 lk;
     _ \<leftarrow> guard (old = 0);
     Some (lk\<lparr>lock_cpu := Some c\<rparr>)
   }"

definition spin_unlock :: "nat \<Rightarrow> spinlock \<Rightarrow> spinlock option" where
  "spin_unlock c lk = do {
     _ \<leftarrow> guard (holding c lk);
     let lk = lk\<lparr>lock_cpu := None\<rparr>;
     Some (snd (xchg_locked 0 lk))
   }"

definition lock_kernel :: "kstate \<Rightarrow> kstate option" where
  "lock_kernel s = do { lk \<leftarrow> spin_lock (cpunum s) (kernel_lock s); Some (s\<lparr>kernel_lock := lk\<rparr>) }"

definition unlock_kernel :: "kstate \<Rightarrow> kstate option" where
  "unlock_kernel s = do { lk \<leftarrow> spin_unlock (cpunum s) (kernel_lock s); Some (s\<lparr>kernel_lock := lk\<rparr>) }"

subsection \<open>Interleaved processors\<close>

text \<open>
  Where a processor is in \<^verbatim>\<open>spin_lock\<close> and \<^verbatim>\<open>spin_unlock\<close>: outside, spinning on the exchange,
  past it but not yet recorded as holder, inside the critical section, past the
  holder check and the reset of \<^verbatim>\<open>lk->cpu\<close> but before the releasing exchange, or stopped by one of
  the two panics.
\<close>

datatype lock_pc = Outside | Spinning | Taken | Inside | Leaving | Panicked

type_synonym lock_conf = "spinlock \<times> (nat \<Rightarrow> lock_pc)"

inductive lock_step :: "lock_conf \<Rightarrow> lock_conf \<Rightarrow> bool" where
  enter: "pc c = Outside \<Longrightarrow> \<not> holding c lk \<Longrightarrow> lock_step (lk, pc) (lk, pc(c := Spinning))"
| relock_panic: "pc c \<in> {Outside, Inside} \<Longrightarrow> holding c lk \<Longrightarrow> lock_step (lk, pc) (lk, pc(c := Panicked))"
| spin: "pc c = Spinning \<Longrightarrow> xchg_locked 1 lk = (old, lk') \<Longrightarrow> old \<noteq> 0 \<Longrightarrow> lock_step (lk, pc) (lk', pc)"
| acquire: "pc c = Spinning \<Longrightarrow> xchg_locked 1 lk = (old, lk') \<Longrightarrow> old = 0 \<Longrightarrow>
    lock_step (lk, pc) (lk', pc(c := Taken))"
| record_cpu: "pc c = Taken \<Longrightarrow> lock_step (lk, pc) (lk\<lparr>lock_cpu := Some c\<rparr>, pc(c := Inside))"
| unlock_check: "pc c \<in> {Inside, Outside} \<Longrightarrow> holding c lk \<Longrightarrow>
    lock_step (lk, pc) (lk\<lparr>lock_cpu := None\<rparr>, pc(c := Leaving))"
| unlock_panic: "pc c \<in> {Inside, Outside} \<Longrightarrow> \<not> holding c lk \<Longrightarrow> lock_step (lk, pc) (lk, pc(c := Panicked))"
| release: "pc c = Leaving \<Longrightarrow> xchg_locked 0 lk = (old, lk') \<Longrightarrow> lock_step (lk, pc) (lk', pc(c := Outside))"

inductive_cases lock_stepE: "lock_step (lk, pc) (lk', pc')"

inductive lock_reach :: "lock_conf \<Rightarrow> bool" where
  init: "lock_reach (spin_initlock lk, \<lambda>_. Outside)"
| step: "lock_reach x \<Longrightarrow> lock_step x y \<Longrightarrow> lock_reach y"

definition owns :: "lock_pc \<Rightarrow> bool" where
  "owns p \<longleftrightarrow> p \<in> {Taken, Inside, Leaving}"

text \<open>
  The lock is free, held by one processor, or stuck: a processor that tried to take it again while
  inside has panicked and keeps it.
\<close>

definition lock_free :: "lock_conf \<Rightarrow> bool" where
  "lock_free x \<longleftrightarrow> locked (fst x) = 0 \<and> lock_cpu (fst x) = None \<and> (\<forall>c. \<not> owns (snd x c))"

definition lock_held :: "nat \<Rightarrow> lock_conf \<Rightarrow> bool" where
  "lock_held c x \<longleftrightarrow> locked (fst x) \<noteq> 0 \<and> owns (snd x c) \<and> (\<forall>c'. c' \<noteq> c \<longrightarrow> \<not> owns (snd x c')) \<and>
     lock_cpu (fst x) = (if snd x c = Inside then Some c else None)"

definition lock_stuck :: "nat \<Rightarrow> lock_conf \<Rightarrow> bool" where
  "lock_stuck c x \<longleftrightarrow> locked (fst x) \<noteq> 0 \<and> snd x c = Panicked \<and> (\<forall>c'. \<not> owns (snd x c')) \<and>
     lock_cpu (fst x) = Some c"

definition lock_inv :: "lock_conf \<Rightarrow> bool" where
  "lock_inv x \<longleftrightarrow> lock_free x \<or> (\<exists>c. lock_held c x) \<or> (\<exists>c. lock_stuck c x)"

lemmas lock_defs = owns_def holding_def xchg_locked_def

lemma free_step: "lock_step x y \<Longrightarrow> lock_free x \<Longrightarrow> lock_free y \<or> (\<exists>c. lock_held c y)"
  by (induction rule: lock_step.induct) (auto simp: lock_free_def lock_held_def lock_defs)

lemma held_step:
  "lock_step x y \<Longrightarrow> lock_held c x \<Longrightarrow> lock_held c y \<or> lock_free y \<or> lock_stuck c y"
proof (induction rule: lock_step.induct)
  case (release pc c' lk old lk')
  then show ?case by (cases "c' = c") (auto simp: lock_free_def lock_held_def lock_defs)
qed (auto simp: lock_held_def lock_stuck_def lock_defs split: if_splits)

lemma stuck_step: "lock_step x y \<Longrightarrow> lock_stuck c x \<Longrightarrow> lock_stuck c y"
  by (induction rule: lock_step.induct) (auto simp: lock_stuck_def lock_defs)

lemma lock_inv_step: "lock_step x y \<Longrightarrow> lock_inv x \<Longrightarrow> lock_inv y"
  using free_step held_step stuck_step unfolding lock_inv_def by blast

lemma lock_reach_inv: "lock_reach x \<Longrightarrow> lock_inv x"
proof (induction rule: lock_reach.induct)
  case (init lk)
  then show ?case by (simp add: lock_inv_def lock_free_def lock_defs spin_initlock_def)
next
  case (step x y)
  then show ?case by (simp add: lock_inv_step)
qed

subsection \<open>Runs\<close>

abbreviation lock_steps :: "lock_conf \<Rightarrow> lock_conf \<Rightarrow> bool" where
  "lock_steps \<equiv> lock_step\<^sup>*\<^sup>*"

lemma acquire_run:
  assumes "pc c = Spinning" "locked lk = 0"
  shows "lock_steps (lk, pc) (lk\<lparr>locked := 1, lock_cpu := Some c\<rparr>, pc(c := Inside))"
proof -
  have "lock_step (lk, pc) (lk\<lparr>locked := 1\<rparr>, pc(c := Taken))"
    using assms by (intro lock_step.acquire) (auto simp: xchg_locked_def)
  moreover have "lock_step (lk\<lparr>locked := 1\<rparr>, pc(c := Taken))
      (lk\<lparr>locked := 1, lock_cpu := Some c\<rparr>, (pc(c := Taken))(c := Inside))"
    using lock_step.record_cpu [of "pc(c := Taken)" c "lk\<lparr>locked := 1\<rparr>"] by simp
  ultimately show ?thesis by (simp add: converse_rtranclp_into_rtranclp)
qed

text \<open>The holder can always leave.\<close>

lemma leaving_run:
  "pc c = Leaving \<Longrightarrow> lock_steps (lk, pc) (lk\<lparr>locked := 0\<rparr>, pc(c := Outside))"
  by (intro r_into_rtranclp lock_step.release) (auto simp: xchg_locked_def)

lemma inside_run:
  assumes "lock_held c (lk, pc)" "pc c = Inside"
  shows "lock_steps (lk, pc) (lk\<lparr>lock_cpu := None, locked := 0\<rparr>, pc(c := Outside))"
proof -
  have "lock_step (lk, pc) (lk\<lparr>lock_cpu := None\<rparr>, pc(c := Leaving))"
    using assms by (intro lock_step.unlock_check) (auto simp: lock_held_def holding_def)
  moreover note leaving_run [of "pc(c := Leaving)" c "lk\<lparr>lock_cpu := None\<rparr>"]
  ultimately show ?thesis by (simp add: converse_rtranclp_into_rtranclp)
qed

lemma holder_leaves:
  assumes "lock_held c (lk, pc)"
  shows "\<exists>lk'. locked lk' = 0 \<and> lock_steps (lk, pc) (lk', pc(c := Outside))"
proof -
  consider "pc c = Taken" | "pc c = Inside" | "pc c = Leaving"
    using assms by (auto simp: lock_held_def owns_def)
  then show ?thesis
  proof cases
    case 1
    have "lock_held c (lk\<lparr>lock_cpu := Some c\<rparr>, pc(c := Inside))"
      using assms by (auto simp: lock_held_def owns_def)
    then have "lock_steps (lk\<lparr>lock_cpu := Some c\<rparr>, pc(c := Inside))
        (lk\<lparr>lock_cpu := None, locked := 0\<rparr>, pc(c := Outside))"
      using inside_run [of c "lk\<lparr>lock_cpu := Some c\<rparr>" "pc(c := Inside)"] by simp
    with lock_step.record_cpu [of pc c lk, OF 1]
    have "lock_steps (lk, pc) (lk\<lparr>lock_cpu := None, locked := 0\<rparr>, pc(c := Outside))"
      by (rule converse_rtranclp_into_rtranclp)
    then show ?thesis by (intro exI conjI) auto
  next
    case 2
    then show ?thesis using inside_run [OF assms] by (intro exI conjI) auto
  next
    case 3
    then show ?thesis using leaving_run by (intro exI conjI) auto
  qed
qed

subsection \<open>Properties\<close>

text \<open>C8: in every reachable configuration of any number of processors at most one is between taking
  and releasing the lock; the holder check of \<open>spin_unlock\<close> succeeds for a processor inside the
  critical section, and the check of \<open>spin_lock\<close> never mistakes another processor for the
  holder.\<close>

theorem spinlock_mutual_exclusion:
  assumes "lock_reach (lk, pc)"
  shows "(\<forall>c c'. owns (pc c) \<and> owns (pc c') \<longrightarrow> c = c') \<and>
    (\<forall>c. pc c = Inside \<longrightarrow> holding c lk) \<and> (\<forall>c. holding c lk \<longrightarrow> pc c = Inside \<or> pc c = Panicked)"
proof -
  consider "lock_free (lk, pc)" | c where "lock_held c (lk, pc)" | c where "lock_stuck c (lk, pc)"
    using lock_reach_inv [OF assms] by (auto simp: lock_inv_def)
  then show ?thesis
  proof cases
    case 1
    then show ?thesis by (auto simp: lock_free_def holding_def owns_def)
  next
    case (2 c)
    then have one: "c' = c" if "owns (pc c')" for c' using that unfolding lock_held_def by auto
    have "holding c' lk" if "pc c' = Inside" for c'
      using one [of c'] that 2 by (simp add: owns_def lock_held_def holding_def)
    moreover have "pc c' = Inside" if "holding c' lk" for c'
      using that 2 by (simp add: lock_held_def holding_def split: if_splits)
    ultimately show ?thesis using one by metis
  next
    case (3 c)
    then show ?thesis by (auto simp: lock_stuck_def holding_def owns_def)
  qed
qed

theorem spinlock_mutual_exclusion_witness:
  "\<exists>lk pc. lock_reach (lk, pc) \<and> pc 2 = Inside \<and> holding 2 lk"
proof -
  define lk where "lk = spin_initlock \<lparr>locked = 0, lock_cpu = None\<rparr>"
  have r0: "lock_reach (lk, \<lambda>_. Outside)" unfolding lk_def by (rule lock_reach.init)
  have "lock_step (lk, \<lambda>_. Outside) (lk, (\<lambda>_. Outside)(2 := Spinning))"
    by (rule lock_step.enter) (simp_all add: lk_def spin_initlock_def holding_def)
  then have r1: "lock_reach (lk, (\<lambda>_. Outside)(2 := Spinning))" by (rule lock_reach.step [OF r0])
  have "lock_step (lk, (\<lambda>_. Outside)(2 := Spinning)) (lk\<lparr>locked := 1\<rparr>, (\<lambda>_. Outside)(2 := Taken))"
    using lock_step.acquire [of "(\<lambda>_. Outside)(2 := Spinning)" 2 lk 0 "lk\<lparr>locked := 1\<rparr>"]
    by (simp add: lk_def spin_initlock_def xchg_locked_def)
  then have r2: "lock_reach (lk\<lparr>locked := 1\<rparr>, (\<lambda>_. Outside)(2 := Taken))" by (rule lock_reach.step [OF r1])
  have "lock_step (lk\<lparr>locked := 1\<rparr>, (\<lambda>_. Outside)(2 := Taken))
      (lk\<lparr>locked := 1, lock_cpu := Some 2\<rparr>, (\<lambda>_. Outside)(2 := Inside))"
    using lock_step.record_cpu [of "(\<lambda>_. Outside)(2 := Taken)" 2 "lk\<lparr>locked := 1\<rparr>"] by simp
  then have r3: "lock_reach (lk\<lparr>locked := 1, lock_cpu := Some 2\<rparr>, (\<lambda>_. Outside)(2 := Inside))"
    by (rule lock_reach.step [OF r2])
  have "holding 2 (lk\<lparr>locked := 1, lock_cpu := Some 2\<rparr>)"
    using spinlock_mutual_exclusion [OF r3] by auto
  with r3 show ?thesis by (intro exI [of _ "lk\<lparr>locked := 1, lock_cpu := Some 2\<rparr>"]
      exI [of _ "(\<lambda>_. Outside)(2 := Inside)"]) simp
qed

text \<open>C9: no processor is locked out: as long as nobody has panicked, from every reachable
  configuration in which a processor spins there is a continuation in which it enters the critical
  section.\<close>

theorem spinlock_progress:
  assumes "lock_reach (lk, pc)" "pc c = Spinning" "\<forall>c'. pc c' \<noteq> Panicked"
  shows "\<exists>y. lock_steps (lk, pc) y \<and> snd y c = Inside"
proof -
  consider "lock_free (lk, pc)" | c0 where "lock_held c0 (lk, pc)"
    using lock_reach_inv [OF assms(1)] assms(3) by (auto simp: lock_inv_def lock_stuck_def)
  then show ?thesis
  proof cases
    case 1
    then have "locked lk = 0" by (simp add: lock_free_def)
    with acquire_run [of pc c lk, OF assms(2)] show ?thesis by (intro exI conjI) auto
  next
    case (2 c0)
    then have "c0 \<noteq> c" using assms(2) by (auto simp: lock_held_def owns_def)
    obtain lk' where l: "locked lk' = 0" "lock_steps (lk, pc) (lk', pc(c0 := Outside))"
      using holder_leaves [OF 2] by blast
    have "lock_steps (lk', pc(c0 := Outside)) (lk'\<lparr>locked := 1, lock_cpu := Some c\<rparr>, (pc(c0 := Outside))(c := Inside))"
      using \<open>c0 \<noteq> c\<close> assms(2) l(1) by (intro acquire_run) auto
    with l(2) have "lock_steps (lk, pc) (lk'\<lparr>locked := 1, lock_cpu := Some c\<rparr>, (pc(c0 := Outside))(c := Inside))"
      by (rule rtranclp_trans)
    then show ?thesis by (intro exI conjI) auto
  qed
qed

theorem spinlock_progress_witness:
  "\<exists>lk pc. lock_reach (lk, pc) \<and> pc 2 = Spinning \<and> (\<exists>y. lock_steps (lk, pc) y \<and> snd y 2 = Inside)"
proof -
  define lk where "lk = spin_initlock \<lparr>locked = 0, lock_cpu = None\<rparr>"
  have r0: "lock_reach (lk, \<lambda>_. Outside)" unfolding lk_def by (rule lock_reach.init)
  have "lock_step (lk, \<lambda>_. Outside) (lk, (\<lambda>_. Outside)(2 := Spinning))"
    by (rule lock_step.enter) (simp_all add: lk_def spin_initlock_def holding_def)
  then have r: "lock_reach (lk, (\<lambda>_. Outside)(2 := Spinning))" by (rule lock_reach.step [OF r0])
  have "\<exists>y. lock_steps (lk, (\<lambda>_. Outside)(2 := Spinning)) y \<and> snd y 2 = Inside"
    by (rule spinlock_progress [OF r]) auto
  with r show ?thesis by (intro exI [of _ lk] exI [of _ "(\<lambda>_. Outside)(2 := Spinning)"]) simp
qed

end
