(* ===== verification/Env.thy ===== *)
theory Env
  imports User_Mem Spinlock
begin

text \<open>
  Environments: \<^verbatim>\<open>kernel/env.c\<close> and \<^verbatim>\<open>kernel/vm.c\<close>. The operations are in the order of the
  source; \<open>env_destroy\<close>, which calls the scheduler, is in the theory of the scheduler. The
  lemmas give the identifier discipline (an identifier names its slot, is positive, and goes
  stale when the slot is reused), what a new address space holds, and that freeing an environment
  returns its pages.
\<close>

subsection \<open>Identifiers\<close>

definition NENV :: nat where "NENV = 1024"

definition ENVX :: "u32 \<Rightarrow> nat" where
  "ENVX envid = unat (envid AND 0x3FF)"

text \<open>
  \<open>envid2env\<close> returns the status and the environment it stores; reading \<^verbatim>\<open>curenv->env_id\<close>
  with no current environment is a kernel fault.
\<close>

definition envid2env :: "u32 \<Rightarrow> bool \<Rightarrow> kstate \<Rightarrow> (int \<times> nat option) option" where
  "envid2env envid checkperm s =
    (if envid = 0 then Some (0, curenv s)
     else let e = ENVX envid in
       if env_status (envs s e) = ENV_FREE \<or> env_id (envs s e) \<noteq> envid then Some (- E_BAD_ENV, None)
       else if checkperm \<and> curenv s \<noteq> Some e then do {
         c \<leftarrow> curenv s;
         if env_parent_id (envs s e) \<noteq> env_id (envs s c) then Some (- E_BAD_ENV, None)
         else Some (0, Some e)
       }
       else Some (0, Some e))"

definition env_init :: "kstate \<Rightarrow> kstate" where
  "env_init s = (fold (\<lambda>i. env_upd i (\<lambda>e. e\<lparr>env_link := Some (i + 1), env_id := 0\<rparr>)) [0..<NENV - 1] s)
     \<lparr>env_free_list := Some 0\<rparr>"

subsection \<open>Address spaces\<close>

fun copy_kern_loop :: "nat list \<Rightarrow> nat \<Rightarrow> kstate \<Rightarrow> kstate" where
  "copy_kern_loop [] pgdir s = s"
| "copy_kern_loop (i # is) pgdir s =
     copy_kern_loop is pgdir
       (if \<not> has (mem s (kern_pgdir s) i) PTE_P then s
        else mem_set pgdir i (mem s (kern_pgdir s) i) s)"

definition env_setup_vm :: "nat \<Rightarrow> kstate \<Rightarrow> (int \<times> kstate) option" where
  "env_setup_vm e s = do {
     (p, s) \<leftarrow> page_alloc True s;
     case p of
       None \<Rightarrow> Some (- E_NO_MEM, s)
     | Some pp \<Rightarrow> do {
         _ \<leftarrow> kaddr (npages s) (page2pa pp);
         let s = env_upd e (\<lambda>v. v\<lparr>env_pgdir := Some pp\<rparr>) s;
         let s = copy_kern_loop [unat (PDX UTOP)..<NPDENTRIES] pp s;
         let s = ref_inc pp s;
         let s = mem_set pp (unat (PDX UVPT)) (page2pa pp OR PTE_P OR PTE_U) s;
         Some (0, s)
       }
   }"

fun region_loop :: "nat \<Rightarrow> nat \<Rightarrow> u32 \<Rightarrow> kstate \<Rightarrow> kstate option" where
  "region_loop 0 pgdir va s = Some s"
| "region_loop (Suc n) pgdir va s = do {
     (p, s) \<leftarrow> page_alloc False s;
     pp \<leftarrow> p;
     (ret, s) \<leftarrow> page_insert pgdir (Some pp) va PTE_W s;
     _ \<leftarrow> guard (ret = 0);
     region_loop n pgdir (va + PGSIZE) s
   }"

definition region_alloc :: "nat \<Rightarrow> u32 \<Rightarrow> u32 \<Rightarrow> kstate \<Rightarrow> kstate option" where
  "region_alloc e va len s = do {
     let end_va = page_end (va + len);
     let va = page_start va;
     pgdir \<leftarrow> env_pgdir (envs s e);
     region_loop ((unat end_va - unat va) div 4096) pgdir va s
   }"

text \<open>\<^verbatim>\<open>kernel/vm.c\<close>; the check for a \<^verbatim>\<open>NULL\<close> environment is the outer \<open>option\<close> of the caller.\<close>

definition env_add_vma :: "nat option \<Rightarrow> u32 \<Rightarrow> u32 \<Rightarrow> u32 \<Rightarrow> kstate \<Rightarrow> int \<times> kstate" where
  "env_add_vma env start sz perm s =
    (case env of
       None \<Rightarrow> (- E_INVAL, s)
     | Some e \<Rightarrow>
         let n = vma_valid (envs s e) in
         if n \<ge> 8 then (- E_MAX_OPEN, s)
         else (0, env_upd e (\<lambda>v. v\<lparr>vma := (vma v)(n := \<lparr>vm_start = start, vm_size = sz, vm_page_prot = perm\<rparr>),
                              vma_valid := n + 1\<rparr>) s))"

fun stack_loop :: "nat \<Rightarrow> nat \<Rightarrow> u32 \<Rightarrow> kstate \<Rightarrow> kstate option" where
  "stack_loop 0 pgdir va s = Some s"
| "stack_loop (Suc n) pgdir va s = do {
     (ret, s) \<leftarrow> page_insert pgdir (Some 0) va (PTE_U OR PTE_COW) s;
     _ \<leftarrow> guard (ret = 0);
     stack_loop n pgdir (va + PGSIZE) s
   }"

definition init_stack :: "nat \<Rightarrow> kstate \<Rightarrow> kstate option" where
  "init_stack e s = do {
     (p, s) \<leftarrow> page_alloc False s;
     pp \<leftarrow> p;
     pgdir \<leftarrow> env_pgdir (envs s e);
     (ret, s) \<leftarrow> page_insert pgdir (Some pp) (USTACKTOP - PGSIZE) (PTE_U OR PTE_W) s;
     _ \<leftarrow> guard (ret = 0);
     let va = USTACKTOP - USTKSIZE;
     s \<leftarrow> stack_loop (unat (USTACKTOP - PGSIZE - va) div 4096) pgdir va s;
     let (ret, s) = env_add_vma (Some e) (USTACKTOP - USTKSIZE) USTKSIZE (PTE_U OR PTE_W) s;
     _ \<leftarrow> guard (ret = 0);
     Some s
   }"

subsection \<open>Loading a program\<close>

text \<open>
  The binary is its bytes; \<open>elf16\<close> and \<open>elf32\<close> read the little-endian fields of \<^verbatim>\<open>struct Elf\<close>
  and \<^verbatim>\<open>struct Proghdr\<close> at their offsets.
\<close>

record proghdr =
  p_type :: u32
  p_offset :: u32
  p_va :: u32
  p_filesz :: u32
  p_memsz :: u32
  p_flags :: u32

definition elf16 :: "(nat \<Rightarrow> u8) \<Rightarrow> nat \<Rightarrow> u32" where
  "elf16 b i = ucast (b i) OR push_bit 8 (ucast (b (i + 1)))"

definition elf32 :: "(nat \<Rightarrow> u8) \<Rightarrow> nat \<Rightarrow> u32" where
  "elf32 b i = elf16 b i OR push_bit 16 (elf16 b (i + 2))"

definition elf_phdr :: "(nat \<Rightarrow> u8) \<Rightarrow> nat \<Rightarrow> proghdr" where
  "elf_phdr b i = \<lparr>p_type = elf32 b i, p_offset = elf32 b (i + 4), p_va = elf32 b (i + 8),
     p_filesz = elf32 b (i + 16), p_memsz = elf32 b (i + 20), p_flags = elf32 b (i + 24)\<rparr>"

fun remap_loop :: "nat \<Rightarrow> nat \<Rightarrow> u32 \<Rightarrow> u32 \<Rightarrow> kstate \<Rightarrow> kstate option" where
  "remap_loop 0 pgdir perm i s = Some s"
| "remap_loop (Suc n) pgdir perm i s = do {
     (ret, s) \<leftarrow> page_insert pgdir None i perm s;
     _ \<leftarrow> guard (ret = 0);
     remap_loop n pgdir perm (i + PGSIZE) s
   }"

definition load_segment :: "nat \<Rightarrow> (nat \<Rightarrow> u8) \<Rightarrow> proghdr \<Rightarrow> kstate \<Rightarrow> kstate option" where
  "load_segment e b ph s =
    (if p_type ph \<noteq> 1 then Some s
     else do {
       s \<leftarrow> region_alloc e (p_va ph) (p_memsz ph) s;
       s \<leftarrow> kwrite_bytes (p_va ph) (map (\<lambda>k. b (unat (p_offset ph) + k)) [0..<unat (p_filesz ph)]) s;
       s \<leftarrow> kwrite_bytes (p_va ph + p_filesz ph) (replicate (unat (p_memsz ph - p_filesz ph)) 0) s;
       let perm = (if has (p_flags ph) 2 then PTE_U OR PTE_W else PTE_U);
       pgdir \<leftarrow> env_pgdir (envs s e);
       let start = ROUNDDOWN (p_va ph) PGSIZE;
       s \<leftarrow> remap_loop ((unat (p_va ph + p_memsz ph) - unat start + 4095) div 4096) pgdir perm start s;
       let (ret, s) = env_add_vma (Some e) (p_va ph) (p_memsz ph) perm s;
       _ \<leftarrow> guard (ret = 0);
       Some s
     })"

definition load_icode :: "nat \<Rightarrow> (nat \<Rightarrow> u8) \<Rightarrow> kstate \<Rightarrow> kstate option" where
  "load_icode e b s = do {
     pgdir \<leftarrow> env_pgdir (envs s e);
     let s = lcr3 pgdir s;
     _ \<leftarrow> guard (elf32 b 0 = 0x464C457F);
     let ph = unat (elf32 b 28);
     s \<leftarrow> mfold (\<lambda>k. load_segment e b (elf_phdr b (ph + 32 * k))) [0..<unat (elf16 b 44)] s;
     let s = env_upd e (\<lambda>v. v\<lparr>env_tf := (env_tf v)\<lparr>tf_eip := elf32 b 24\<rparr>\<rparr>) s;
     s \<leftarrow> init_stack e s;
     Some (lcr3 (kern_pgdir s) s)
   }"

subsection \<open>Creating and freeing environments\<close>

text \<open>
  \<open>env_generation\<close> computes the upper part of the next identifier of a slot: the old one plus
  \<^verbatim>\<open>1 << ENVGENSHIFT\<close> with the index bits cleared, or \<^verbatim>\<open>1 << ENVGENSHIFT\<close> again when that is
  not positive as a signed integer.
\<close>

definition env_generation :: "u32 \<Rightarrow> u32" where
  "env_generation eid =
    (let generation = (eid + 0x1000) AND NOT 0x3FF
     in if sint generation \<le> 0 then 0x1000 else generation)"

definition fresh_tf :: trapframe where
  "fresh_tf = zero_tf\<lparr>tf_ds := 0x23, tf_es := 0x23, tf_ss := 0x23, tf_esp := USTACKTOP, tf_cs := 0x1B,
     tf_eflags := 0x200\<rparr>"

definition env_alloc :: "u32 \<Rightarrow> kstate \<Rightarrow> (int \<times> nat option \<times> kstate) option" where
  "env_alloc parent_id s =
    (case env_free_list s of
       None \<Rightarrow> Some (- E_NO_FREE_ENV, None, s)
     | Some e \<Rightarrow> do {
         (r, s) \<leftarrow> env_setup_vm e s;
         if r < 0 then Some (r, None, s)
         else do {
           let s = env_upd e (\<lambda>v. v\<lparr>env_id := env_generation (env_id v) OR of_nat e,
                      env_parent_id := parent_id, env_type := ENV_TYPE_USER, env_status := ENV_RUNNABLE,
                      env_runs := 0, vma_valid := 0, env_tf := fresh_tf, env_pgfault_upcall := 0,
                      env_ipc_recving := False\<rparr>) s;
           let s = s\<lparr>env_free_list := env_link (envs s e)\<rparr>;
           Some (0, Some e, s)
         }
       })"

definition env_create :: "(nat \<Rightarrow> u8) \<Rightarrow> env_type \<Rightarrow> kstate \<Rightarrow> kstate option" where
  "env_create b ty s = do {
     (ret, env, s) \<leftarrow> env_alloc 0 s;
     _ \<leftarrow> guard (ret = 0);
     e \<leftarrow> env;
     s \<leftarrow> load_icode e b s;
     let s = env_upd e (\<lambda>v. v\<lparr>env_type := ty\<rparr>) s;
     Some (if ty = ENV_TYPE_FS
           then env_upd e (\<lambda>v. v\<lparr>env_tf := (env_tf v)\<lparr>tf_eflags := tf_eflags (env_tf v) OR 0x3000\<rparr>\<rparr>) s
           else s)
   }"

text \<open>
  How a kernel function ends: it returns a status to its caller, it leaves the kernel into an
  environment, it halts the processor with the lock released, or it stays in the monitor.
\<close>

datatype ctl = Ret int | Resume nat | Halt | Monitor

definition env_run :: "nat \<Rightarrow> kstate \<Rightarrow> (ctl \<times> kstate) option" where
  "env_run e s = do {
     let s = (case curenv s of
                Some c \<Rightarrow> if env_status (envs s c) = ENV_RUNNING
                           then env_upd c (\<lambda>v. v\<lparr>env_status := ENV_RUNNABLE\<rparr>) s else s
              | None \<Rightarrow> s);
     let s = set_curenv (Some e) s;
     let s = env_upd e (\<lambda>v. v\<lparr>env_status := ENV_RUNNING, env_runs := env_runs v + 1\<rparr>) s;
     pgdir \<leftarrow> env_pgdir (envs s e);
     let s = lcr3 pgdir s;
     s \<leftarrow> unlock_kernel s;
     let s = env_upd e (\<lambda>v. v\<lparr>env_cpunum := cpunum s\<rparr>) s;
     Some (Resume e, s)
   }"

definition free_pte :: "nat \<Rightarrow> nat \<Rightarrow> nat \<Rightarrow> nat \<Rightarrow> kstate \<Rightarrow> kstate option" where
  "free_pte pgdir pt pdeno pteno s =
    (if has (mem s pt pteno) PTE_P then page_remove pgdir (PGADDR (of_nat pdeno) (of_nat pteno) 0) s
     else Some s)"

definition free_table :: "nat \<Rightarrow> nat \<Rightarrow> kstate \<Rightarrow> kstate option" where
  "free_table pgdir pdeno s =
    (if \<not> has (mem s pgdir pdeno) PTE_P then Some s
     else do {
       let pa = PTE_ADDR (mem s pgdir pdeno);
       _ \<leftarrow> kaddr (npages s) pa;
       s \<leftarrow> mfold (free_pte pgdir (unat (PGNUM pa)) pdeno) [0..<NPTENTRIES] s;
       let s = mem_set pgdir pdeno 0 s;
       pp \<leftarrow> pa2page (npages s) pa;
       page_decref pp s
     })"

definition env_free :: "nat \<Rightarrow> kstate \<Rightarrow> kstate option" where
  "env_free e s = do {
     let s = (if curenv s = Some e then lcr3 (kern_pgdir s) s else s);
     pgdir \<leftarrow> env_pgdir (envs s e);
     s \<leftarrow> mfold (free_table pgdir) [0..<unat (PDX UTOP)] s;
     let s = env_upd e (\<lambda>v. v\<lparr>env_pgdir := None\<rparr>) s;
     pp \<leftarrow> pa2page (npages s) (page2pa pgdir);
     s \<leftarrow> page_decref pp s;
     let s = env_upd e (\<lambda>v. v\<lparr>env_status := ENV_FREE, env_link := env_free_list s\<rparr>) s;
     Some (s\<lparr>env_free_list := Some e\<rparr>)
   }"

subsection \<open>Arithmetic of identifiers\<close>

lemma ENVX_mod: "ENVX x = unat x mod 1024"
proof -
  have "(0x3FF :: u32) = mask 10" by (simp add: mask_eq_exp_minus_1)
  then show ?thesis using mask_mod [of x 10] by (simp add: ENVX_def)
qed

lemma ENVX_less [simp]: "ENVX x < 1024"
  by (simp add: ENVX_mod)

lemma unat_upper: "unat (x AND NOT 0x3FF :: u32) = unat x div 1024 * 1024"
proof -
  let ?u = "x AND NOT 0x3FF" and ?l = "x AND 0x3FF"
  have "\<not> bit ?u n \<or> \<not> bit ?l n" for n unfolding bit_and_iff bit_not_iff by blast
  then have "?u + ?l = ?u OR ?l" by (rule disjunctive_add)
  also have "\<dots> = x"
    by (rule bit_word_eqI) (simp only: bit_or_iff bit_and_iff bit_not_iff, auto)
  finally have u: "?u = x - ?l" by (simp only: eq_diff_eq)
  have l: "unat ?l = unat x mod 1024" using ENVX_mod [of x] by (simp add: ENVX_def)
  then have "unat ?l \<le> unat x" by simp
  then have "unat ?u = unat x - unat x mod 1024" unfolding u by (simp add: unat_sub_no_wrap l)
  then show ?thesis by (simp only: minus_mod_eq_div_mult)
qed

lemma sint_pos: "0 < sint (x :: u32) \<longleftrightarrow> 0 < unat x \<and> unat x < 2 ^ 31"
proof -
  have b: "sint x < 2 ^ 31" using signed_take_bit_int_less_exp [of 31 "uint x"] by (simp add: sint_uint)
  have t: "take_bit 32 (sint x) = uint x"
    using uint_bounded [of x] by (simp add: sint_uint take_bit_signed_take_bit take_bit_int_eq_self)
  have "sint x = uint x" if "uint x < 2 ^ 31"
    using that signed_take_bit_int_eq_self [of 31 "uint x"] uint_nonnegative [of x] by (simp add: sint_uint)
  moreover have "sint x = uint x" if "0 < sint x"
    using that b t take_bit_int_eq_self [of "sint x" 32] by simp
  ultimately have i: "0 < sint x \<longleftrightarrow> 0 < uint x \<and> uint x < 2 ^ 31" using b by linarith
  have u: "int (unat x) = uint x" by simp
  have "0 < uint x \<longleftrightarrow> 0 < unat x" using u by linarith
  moreover have "uint x < 2147483648 \<longleftrightarrow> unat x < 2147483648" using u by linarith
  ultimately show ?thesis using i by simp
qed

lemma env_generation_range:
  "0 < unat (env_generation eid) \<and> unat (env_generation eid) < 2 ^ 31 \<and> unat (env_generation eid) mod 1024 = 0"
proof (cases "sint ((eid + 0x1000) AND NOT 0x3FF) \<le> 0")
  case False
  then have "env_generation eid = (eid + 0x1000) AND NOT 0x3FF" by (simp add: env_generation_def)
  with False show ?thesis
    using sint_pos [of "(eid + 0x1000) AND NOT 0x3FF"] unat_upper [of "eid + 0x1000"] by simp
qed (simp add: env_generation_def)

lemma new_id_sum:
  assumes "e < 1024"
  shows "unat (env_generation eid OR of_nat e) = unat (env_generation eid) + e"
proof -
  let ?g = "env_generation eid"
  have e: "unat (of_nat e :: u32) = e" using assms by simp
  have "unat ?g = unat (?g AND NOT 0x3FF)"
    using env_generation_range [of eid] unfolding unat_upper by (auto simp: mod_eq_0_iff_dvd)
  then have g: "?g = ?g AND NOT 0x3FF" by (rule word_unat_eqI)
  have lt: "(of_nat e :: u32) < 1024" using assms e by (simp add: word_less_nat_alt)
  have "\<not> bit ?g n \<or> \<not> bit (of_nat e :: u32) n" for n
    using bit_index [OF lt, of n] arg_cong [OF g, of "\<lambda>w. bit w n"]
    unfolding bit_and_iff bit_not_iff bit_0x3FF by blast
  then have "?g OR of_nat e = ?g + of_nat e" by (rule disjunctive_add [symmetric])
  then show ?thesis using env_generation_range [of eid] assms e by (simp add: unat_add_no_wrap)
qed

lemma new_id_index: "e < 1024 \<Longrightarrow> ENVX (env_generation eid OR of_nat e) = e"
proof -
  assume e: "e < 1024"
  obtain k where "unat (env_generation eid) = 1024 * k"
    using env_generation_range [of eid] by (auto simp: mod_eq_0_iff_dvd dvd_def)
  with e show ?thesis by (simp add: ENVX_mod new_id_sum)
qed

lemma new_id_positive: "e < 1024 \<Longrightarrow> 0 < sint (env_generation eid OR of_nat e)"
proof -
  assume e: "e < 1024"
  obtain k where "unat (env_generation eid) = 1024 * k"
    using env_generation_range [of eid] by (auto simp: mod_eq_0_iff_dvd dvd_def)
  with e env_generation_range [of eid] show ?thesis by (simp add: sint_pos new_id_sum)
qed

lemma new_id_fresh: "e < 1024 \<Longrightarrow> env_generation eid OR of_nat e \<noteq> eid"
proof
  assume e: "e < 1024" and eq: "env_generation eid OR of_nat e = eid"
  have id: "unat eid = unat (env_generation eid) + e" using new_id_sum [OF e, of eid] eq by simp
  then have lt: "unat eid < 2 ^ 31 + 1024" using env_generation_range [of eid] e by linarith
  obtain k where k: "unat (env_generation eid) = 1024 * k"
    using env_generation_range [of eid] by (auto simp: mod_eq_0_iff_dvd dvd_def)
  have up: "unat ((eid + 0x1000) AND NOT 0x3FF) = (unat eid + 4096) div 1024 * 1024"
    unfolding unat_upper using lt by (simp add: unat_add_no_wrap)
  have "(unat eid + 4096) div 1024 = k + 4" using id k e by simp
  with up k id show False
    using env_generation_range [of eid] sint_pos [of "(eid + 0x1000) AND NOT 0x3FF"]
    unfolding env_generation_def Let_def by (auto split: if_splits)
qed

subsection \<open>New address spaces\<close>

lemma copy_kern_fields [simp]:
  "npages (copy_kern_loop is d s) = npages s" "kern_pgdir (copy_kern_loop is d s) = kern_pgdir s"
  "pages (copy_kern_loop is d s) = pages s" "page_free_list (copy_kern_loop is d s) = page_free_list s"
  "envs (copy_kern_loop is d s) = envs s" "env_free_list (copy_kern_loop is d s) = env_free_list s"
  "cpus (copy_kern_loop is d s) = cpus s" "cpunum (copy_kern_loop is d s) = cpunum s"
  "cr3 (copy_kern_loop is d s) = cr3 s" "kernel_lock (copy_kern_loop is d s) = kernel_lock s"
  "tlb (copy_kern_loop is d s) = tlb s"
  by (induction "is" arbitrary: s) auto

lemma copy_kern_mem:
  "d \<noteq> kern_pgdir s \<Longrightarrow> mem (copy_kern_loop is d s) f i =
    (if f = d \<and> i \<in> set is \<and> has (mem s (kern_pgdir s) i) PTE_P then mem s (kern_pgdir s) i else mem s f i)"
  by (induction "is" arbitrary: s) auto

lemma free_pages_upd [simp]:
  "free_pages (copy_kern_loop is d s) = free_pages s" "free_ok (copy_kern_loop is d s) = free_ok s"
proof -
  have "page_next (copy_kern_loop is d s) = page_next s" by (rule ext) (simp add: page_next_def)
  then show "free_pages (copy_kern_loop is d s) = free_pages s" "free_ok (copy_kern_loop is d s) = free_ok s"
    by (simp_all add: free_pages_def free_ok_def)
qed

definition new_space :: "nat \<Rightarrow> nat \<Rightarrow> kstate \<Rightarrow> kstate" where
  "new_space e p s =
    mem_set p (unat (PDX UVPT)) (page2pa p OR PTE_P OR PTE_U)
     (ref_inc p (copy_kern_loop [unat (PDX UTOP)..<1024] p
       (env_upd e (\<lambda>v. v\<lparr>env_pgdir := Some p\<rparr>) (take_page True p s))))"

lemma env_setup_vm_new:
  assumes "free_ok s" "free_pages s = p # ps"
  shows "env_setup_vm e s = Some (0, new_space e p s)"
proof -
  have "p < npages s" "npages s \<le> 65536" using assms by (auto simp: free_ok_def)
  then show ?thesis
    by (simp add: env_setup_vm_def page_alloc_cons [OF assms] new_space_def kaddr_page2pa)
qed

lemma env_setup_vm_no_mem:
  "free_ok s \<Longrightarrow> free_pages s = [] \<Longrightarrow> env_setup_vm e s = Some (- E_NO_MEM, s)"
  by (simp add: env_setup_vm_def page_alloc_empty)

lemma new_space_fields [simp]:
  "npages (new_space e p s) = npages s" "kern_pgdir (new_space e p s) = kern_pgdir s"
  "envs (new_space e p s) = (envs s)(e := (envs s e)\<lparr>env_pgdir := Some p\<rparr>)"
  "env_free_list (new_space e p s) = env_free_list s"
  "cpus (new_space e p s) = cpus s" "cpunum (new_space e p s) = cpunum s" "cr3 (new_space e p s) = cr3 s"
  "kernel_lock (new_space e p s) = kernel_lock s" "tlb (new_space e p s) = tlb s"
  "curenv (new_space e p s) = curenv s"
  by (simp_all add: new_space_def curenv_def)

lemma new_space_ref:
  assumes "free_ok s" "free_pages s = p # ps"
  shows "pp_ref (pages (new_space e p s) q) = (if q = p then 1 else pp_ref (pages s q))"
proof -
  have "pp_ref (pages s p) = 0" using assms by (auto simp: free_ok_def)
  then show ?thesis by (simp add: new_space_def)
qed

lemma new_space_free:
  assumes "free_ok s" "free_pages s = p # ps"
  shows "free_ok (new_space e p s) \<and> free_pages (new_space e p s) = ps"
proof -
  have "p \<notin> set ps" using free_ok_distinct [OF assms(1)] assms(2) by simp
  then show ?thesis
    using take_page_free [OF assms, of True]
    by (auto simp: new_space_def intro!: free_ok_ref_inc)
qed

lemma PDX_layout: "unat (PDX UTOP) = 955" "unat (PDX UVPT) = 957"
  by (simp_all add: unat_PDX layout)

lemma new_space_mem_other: "f \<noteq> p \<Longrightarrow> p \<noteq> kern_pgdir s \<Longrightarrow> mem (new_space e p s) f = mem s f"
  by (rule ext) (simp add: new_space_def copy_kern_mem)

lemma new_space_mem:
  assumes "p \<noteq> kern_pgdir s" "i < 1024"
  shows "mem (new_space e p s) p i =
    (if i = 957 then page2pa p OR PTE_P OR PTE_U
     else if 955 \<le> i \<and> has (mem s (kern_pgdir s) i) PTE_P then mem s (kern_pgdir s) i else 0)"
  using assms by (simp add: new_space_def copy_kern_mem PDX_layout del: upt_rec_numeral)

text \<open>A frame outside the tables can be turned into a new, empty directory.\<close>

lemma new_dir_same:
  assumes "\<And>i. i < 955 \<Longrightarrow> table s d i = None"
  shows "slots (insert d D) s p = slots D s p" "tables (insert d D) s = tables D s"
  using assms by (auto simp: slots_def tables_def entry_def)

lemma vm_inv_new_dir:
  assumes "vm_inv D s" "d < npages s" "pp_ref (pages s d) = 1" "d \<notin> D \<union> tables D s" "slots D s d = {}"
    and none: "\<And>i. i < 955 \<Longrightarrow> table s d i = None"
  shows "vm_inv (insert d D) s"
proof -
  note sl = new_dir_same(1) [OF none] and tb = new_dir_same(2) [OF none]
  have "pt_shape (insert d D) s"
    unfolding pt_shape_def
  proof (intro conjI ballI allI impI)
    show "finite (insert d D)" using assms(1) by (simp add: vm_inv_def pt_shape_def)
    fix d1 i1 t assume 1: "d1 \<in> insert d D" "i1 < 955" "table s d1 i1 = Some t"
    then have d1: "d1 \<in> D" using none by auto
    then have "t \<in> tables D s" using 1 by (auto simp: tables_def)
    then show "t \<notin> insert d D" "t < npages s"
      using assms(4) shapeD(1,2) [OF vm_inv_shape [OF assms(1)] d1 1(2,3)] by auto
    fix d2 i2 assume 2: "d2 \<in> insert d D" "i2 < 955" "table s d2 i2 = Some t"
    then have "d2 \<in> D" using none by auto
    then show "d2 = d1" "i2 = i1" using shapeD(3) [OF vm_inv_shape [OF assms(1)] d1 1(2,3)] 2 by auto
  qed
  with assms(1-3,5) show ?thesis by (auto simp: vm_inv_def sl tb)
qed

text \<open>Writing to a frame that is neither a directory nor a table does not change the mappings.\<close>

lemma vm_inv_other_frame:
  assumes "vm_inv D s" "p \<notin> D \<union> tables D s" "free_ok s'" "npages s' = npages s"
    and mem: "\<forall>f. f \<noteq> p \<longrightarrow> mem s' f = mem s f"
    and ref: "\<forall>q. q \<noteq> p \<longrightarrow> pp_ref (pages s' q) = pp_ref (pages s q)"
    and p: "slots D s p = {}"
  shows "vm_inv D s'" "\<And>q. slots D s' q = slots D s q" "tables D s' = tables D s"
    "\<And>d i. d \<in> D \<Longrightarrow> table s' d i = table s d i" "\<And>d i j. d \<in> D \<Longrightarrow> i < 955 \<Longrightarrow> entry s' d i j = entry s d i j"
proof -
  show tb: "table s' d i = table s d i" if "d \<in> D" for d i
  proof -
    have "d \<noteq> p" using that assms(2) by auto
    then show ?thesis by (simp add: table_def mem)
  qed
  show en: "entry s' d i j = entry s d i j" if "d \<in> D" "i < 955" for d i j
  proof (cases "table s d i")
    case (Some t)
    then have "t \<noteq> p" using that assms(2) by (auto simp: tables_def)
    then show ?thesis using Some tb [OF that(1), of i] mem by (simp add: entry_def)
  qed (simp add: entry_def tb [OF that(1)])
  show sl: "slots D s' q = slots D s q" for q by (rule slots_cong) (rule en)
  show tt: "tables D s' = tables D s" by (rule tables_cong) (rule tb)
  have "pt_shape D s'" using pt_shape_cong [of D s' s] tb assms(4) vm_inv_shape [OF assms(1)] by simp
  moreover have "card (slots D s q) \<le> unat (pp_ref (pages s' q))" if "q < npages s" for q
    using assms(1) that p ref by (cases "q = p") (auto simp: vm_inv_def)
  moreover have "pp_ref (pages s' q) = 1" if "q \<in> D \<union> tables D s" for q
    using assms(1,2) that ref by (cases "q = p") (auto simp: vm_inv_def)
  ultimately show "vm_inv D s'"
    using assms(1,3,4) unfolding vm_inv_def sl tt by auto
qed

lemma new_space_inv:
  assumes "vm_inv D s" "free_pages s = p # ps" "p \<noteq> kern_pgdir s"
  shows "vm_inv (insert p D) (new_space e p s)"
    "\<And>i. i < 955 \<Longrightarrow> table (new_space e p s) p i = None"
    "\<And>d i j. d \<in> D \<Longrightarrow> i < 955 \<Longrightarrow> entry (new_space e p s) d i j = entry s d i j"
    "tables (insert p D) (new_space e p s) = tables D s"
    "\<And>q. slots (insert p D) (new_space e p s) q = slots D s q"
proof -
  let ?s = "new_space e p s"
  note f = vm_inv_free [OF assms(1)]
  note np = new_page_unused [OF assms(1,2)]
  have p: "p < npages s" "pp_ref (pages s p) = 0" using f assms(2) by (auto simp: free_ok_def)
  then have psl: "slots D s p = {}"
    using assms(1) finite_slots [OF vm_inv_shape [OF assms(1)]] by (auto simp: vm_inv_def)
  have A: "free_ok ?s" using new_space_free [OF f assms(2)] by simp
  have B: "npages ?s = npages s" by simp
  have C: "\<forall>g. g \<noteq> p \<longrightarrow> mem ?s g = mem s g" using new_space_mem_other [OF _ assms(3)] by simp
  have R: "\<forall>q. q \<noteq> p \<longrightarrow> pp_ref (pages ?s q) = pp_ref (pages s q)"
    using new_space_ref [OF f assms(2)] by simp
  note o = vm_inv_other_frame [OF assms(1) np A B C R psl]
  show none: "table ?s p i = None" if "i < 955" for i
    using that new_space_mem [OF assms(3), of i e] by (simp add: table_def has_def)
  show "entry ?s d i j = entry s d i j" if "d \<in> D" "i < 955" for d i j using o(5) [OF that] .
  show "tables (insert p D) ?s = tables D s" "\<And>q. slots (insert p D) ?s q = slots D s q"
    by (simp_all add: new_dir_same none o(2,3))
  show "vm_inv (insert p D) ?s"
    by (rule vm_inv_new_dir [OF o(1)])
      (use np p none new_space_ref [OF f assms(2), of e] in \<open>simp_all add: o(2,3) psl\<close>)
qed

subsection \<open>The invariant of the environment table\<close>

definition env_next :: "kstate \<Rightarrow> nat \<Rightarrow> nat option" where
  "env_next s e = env_link (envs s e)"

definition free_envs :: "kstate \<Rightarrow> nat list" where
  "free_envs s = walk NENV (env_next s) (env_free_list s)"

definition env_list_ok :: "kstate \<Rightarrow> bool" where
  "env_list_ok s \<longleftrightarrow> links (env_next s) (env_free_list s) (free_envs s) \<and>
     set (free_envs s) = {e. e < NENV \<and> env_status (envs s e) = ENV_FREE}"

definition dirs :: "kstate \<Rightarrow> nat set" where
  "dirs s = {d. \<exists>e < NENV. env_pgdir (envs s e) = Some d}"

text \<open>
  \<open>slots_ok\<close>: a slot has a page directory exactly when it is in use, no two slots share one, and
  the identifier of a slot in use is positive and carries the slot's index.
\<close>

definition slots_ok :: "kstate \<Rightarrow> bool" where
  "slots_ok s \<longleftrightarrow>
     (\<forall>e < NENV. (env_pgdir (envs s e) = None) = (env_status (envs s e) = ENV_FREE)) \<and>
     (\<forall>e < NENV. \<forall>e' < NENV. \<forall>d. env_pgdir (envs s e) = Some d \<longrightarrow> env_pgdir (envs s e') = Some d \<longrightarrow> e' = e) \<and>
     (\<forall>e < NENV. env_status (envs s e) \<noteq> ENV_FREE \<longrightarrow> ENVX (env_id (envs s e)) = e \<and> 0 < sint (env_id (envs s e)))"

text \<open>
  \<open>spaces\<close>: the page directories in use, the kernel's among them. The kernel's directory belongs
  to no environment.
\<close>

definition spaces :: "kstate \<Rightarrow> nat set" where
  "spaces s = insert (kern_pgdir s) (dirs s)"

definition kern_ok :: "kstate \<Rightarrow> bool" where
  "kern_ok s \<longleftrightarrow> kern_pgdir s \<notin> dirs s"

definition kinv :: "kstate \<Rightarrow> bool" where
  "kinv s \<longleftrightarrow> env_list_ok s \<and> slots_ok s \<and> vm_inv (spaces s) s \<and> kern_ok s"

lemma free_envs_eqI:
  assumes "links (env_next s) (env_free_list s) xs" "\<forall>e \<in> set xs. e < NENV"
  shows "free_envs s = xs"
  using assms by (auto simp: free_envs_def intro!: walk_links bounded_length dest: links_distinct)

lemma env_list_okI:
  assumes "links (env_next s) (env_free_list s) xs"
    and "set xs = {e. e < NENV \<and> env_status (envs s e) = ENV_FREE}"
  shows "env_list_ok s \<and> free_envs s = xs"
  using assms free_envs_eqI [of s xs] by (auto simp: env_list_ok_def)

lemma env_init_next:
  "env_next (fold (\<lambda>i. env_upd i (\<lambda>e. e\<lparr>env_link := Some (i + 1), env_id := 0\<rparr>)) [0..<n] s) e =
    (if e < n then Some (e + 1) else env_next s e) \<and>
   env_status (envs (fold (\<lambda>i. env_upd i (\<lambda>e. e\<lparr>env_link := Some (i + 1), env_id := 0\<rparr>)) [0..<n] s) e)
    = env_status (envs s e)"
  by (induction n) (auto simp: env_next_def)

lemma links_succ:
  "links (\<lambda>e. if e < n then Some (e + 1) else None) (Some k) [k..<Suc n]" if "k \<le> n"
  using that
proof (induction "n - k" arbitrary: k)
  case 0
  then show ?case by simp
next
  case (Suc m)
  then have "links (\<lambda>e. if e < n then Some (e + 1) else None) (Some (k + 1)) [k + 1..<Suc n]" by simp
  with Suc show ?case by (subst upt_conv_Cons) auto
qed

lemma env_init_list:
  assumes "\<forall>e < NENV. env_status (envs s e) = ENV_FREE" "env_link (envs s 1023) = None"
  shows "env_list_ok (env_init s) \<and> free_envs (env_init s) = [0..<1024]"
proof (rule env_list_okI)
  let ?s = "fold (\<lambda>i. env_upd i (\<lambda>e. e\<lparr>env_link := Some (i + 1), env_id := 0\<rparr>)) [0..<1023] s"
  have e: "envs (env_init s) = envs ?s" "env_free_list (env_init s) = Some 0"
    by (simp_all add: env_init_def NENV_def del: upt_rec_numeral)
  have nx: "env_next (env_init s) e = (if e < 1023 then Some (e + 1) else env_next s e)" for e
    using env_init_next [of 1023 s e] e(1) by (simp add: env_next_def del: upt_rec_numeral)
  have "links (env_next (env_init s)) (Some 0) [0..<Suc 1023] =
      links (\<lambda>e. if e < 1023 then Some (e + 1) else None) (Some 0) [0..<Suc 1023]"
  proof (rule links_cong)
    fix x assume "x \<in> set [0..<Suc 1023]"
    then have "x < 1023 \<or> x = 1023" by auto
    moreover have "env_next s 1023 = None" using assms(2) by (simp add: env_next_def)
    ultimately show "env_next (env_init s) x = (if x < 1023 then Some (x + 1) else None)" by (auto simp: nx)
  qed
  then show "links (env_next (env_init s)) (env_free_list (env_init s)) [0..<1024]"
    using links_succ [of 0 1023] e(2) by (simp del: upt_rec_numeral upt_Suc)
  show "set [0..<1024] = {e. e < NENV \<and> env_status (envs (env_init s) e) = ENV_FREE}"
    using assms(1) env_init_next [of 1023 s] e(1) by (auto simp: NENV_def simp del: upt_rec_numeral)
qed

subsection \<open>Allocating\<close>

definition start_env :: "nat \<Rightarrow> u32 \<Rightarrow> kstate \<Rightarrow> kstate" where
  "start_env e parent_id s =
    (let s = env_upd e (\<lambda>v. v\<lparr>env_id := env_generation (env_id v) OR of_nat e,
                env_parent_id := parent_id, env_type := ENV_TYPE_USER, env_status := ENV_RUNNABLE,
                env_runs := 0, vma_valid := 0, env_tf := fresh_tf, env_pgfault_upcall := 0,
                env_ipc_recving := False\<rparr>) s
     in s\<lparr>env_free_list := env_link (envs s e)\<rparr>)"

lemma env_alloc_ok:
  assumes "env_free_list s = Some e" "free_ok s" "free_pages s = p # ps"
  shows "env_alloc parent s = Some (0, Some e, start_env e parent (new_space e p s))"
  using assms by (simp add: env_alloc_def env_setup_vm_new start_env_def Let_def)

lemma start_env_fields [simp]:
  "npages (start_env e u s) = npages s" "kern_pgdir (start_env e u s) = kern_pgdir s"
  "pages (start_env e u s) = pages s" "page_free_list (start_env e u s) = page_free_list s"
  "mem (start_env e u s) = mem s" "cpus (start_env e u s) = cpus s" "cpunum (start_env e u s) = cpunum s"
  "cr3 (start_env e u s) = cr3 s" "kernel_lock (start_env e u s) = kernel_lock s"
  "tlb (start_env e u s) = tlb s" "curenv (start_env e u s) = curenv s"
  "env_free_list (start_env e u s) = env_next s e"
  "e' \<noteq> e \<Longrightarrow> envs (start_env e u s) e' = envs s e'"
  "env_pgdir (envs (start_env e u s) e') = env_pgdir (envs s e')"
  "env_link (envs (start_env e u s) e') = env_link (envs s e')"
  "env_status (envs (start_env e u s) e) = ENV_RUNNABLE"
  "env_id (envs (start_env e u s) e) = env_generation (env_id (envs s e)) OR of_nat e"
  "env_parent_id (envs (start_env e u s) e) = u"
  "env_tf (envs (start_env e u s) e) = fresh_tf"
  by (simp_all add: start_env_def Let_def curenv_def env_next_def)

lemma kinv_list: "kinv s \<Longrightarrow> env_list_ok s" and kinv_slots: "kinv s \<Longrightarrow> slots_ok s"
  and kinv_vm: "kinv s \<Longrightarrow> vm_inv (spaces s) s" and kinv_kern: "kinv s \<Longrightarrow> kern_ok s"
  by (simp_all add: kinv_def)

lemma kern_not_free: "kinv s \<Longrightarrow> kern_pgdir s \<notin> set (free_pages s)"
  by (auto simp: kinv_def spaces_def vm_inv_def free_ok_def)

lemma env_head:
  assumes "env_list_ok s" "env_free_list s = Some e"
  shows "e < NENV" "env_status (envs s e) = ENV_FREE" "\<exists>es. free_envs s = e # es \<and> e \<notin> set es"
proof -
  obtain es where es: "free_envs s = e # es"
    using assms by (cases "free_envs s") (auto simp: env_list_ok_def)
  then have "e \<in> set (free_envs s)" by simp
  then show "e < NENV" "env_status (envs s e) = ENV_FREE" using assms(1) by (auto simp: env_list_ok_def)
  have "distinct (free_envs s)" using assms(1) links_distinct by (auto simp: env_list_ok_def)
  with es show "\<exists>es. free_envs s = e # es \<and> e \<notin> set es" by auto
qed

definition alloc_state :: "nat \<Rightarrow> u32 \<Rightarrow> nat \<Rightarrow> kstate \<Rightarrow> kstate" where
  "alloc_state e u p s = start_env e u (new_space e p s)"

lemma alloc_pgdir: "env_pgdir (envs (alloc_state e u p s) x) = (if x = e then Some p else env_pgdir (envs s x))"
  by (simp add: alloc_state_def)

lemma alloc_status:
  "env_status (envs (alloc_state e u p s) x) = (if x = e then ENV_RUNNABLE else env_status (envs s x))"
  by (simp add: alloc_state_def)

lemma alloc_id:
  "env_id (envs (alloc_state e u p s) x) =
    (if x = e then env_generation (env_id (envs s e)) OR of_nat e else env_id (envs s x))"
  by (simp add: alloc_state_def)

lemma alloc_dirs:
  assumes "e < NENV" "env_pgdir (envs s e) = None"
  shows "dirs (alloc_state e u p s) = insert p (dirs s)"
proof
  show "dirs (alloc_state e u p s) \<subseteq> insert p (dirs s)" by (auto simp: dirs_def alloc_pgdir split: if_splits)
  have "d \<in> dirs (alloc_state e u p s)" if "x < NENV" "env_pgdir (envs s x) = Some d" for x d
  proof -
    have "x \<noteq> e" using that assms by auto
    then have "env_pgdir (envs (alloc_state e u p s) x) = Some d" using that by (simp add: alloc_pgdir)
    with that(1) show ?thesis by (auto simp: dirs_def)
  qed
  moreover have "p \<in> dirs (alloc_state e u p s)"
    using assms(1) alloc_pgdir [of e u p s e] by (auto simp: dirs_def)
  ultimately show "insert p (dirs s) \<subseteq> dirs (alloc_state e u p s)" by (auto simp: dirs_def)
qed

lemma alloc_list:
  assumes "env_list_ok s" "env_free_list s = Some e"
  shows "env_list_ok (alloc_state e u p s)"
proof -
  obtain es where es: "free_envs s = e # es" "e \<notin> set es" using env_head(3) [OF assms] by blast
  have "env_next (alloc_state e u p s) x = env_next s x" for x
    by (cases "x = e") (simp_all add: alloc_state_def env_next_def)
  then have nx: "env_next (alloc_state e u p s) = env_next s" by blast
  have fl: "env_free_list (alloc_state e u p s) = env_next s e" by (simp add: alloc_state_def env_next_def)
  have "env_list_ok (alloc_state e u p s) \<and> free_envs (alloc_state e u p s) = es"
    using assms(1) es by (intro env_list_okI) (auto simp: env_list_ok_def nx fl alloc_status)
  then show ?thesis by simp
qed

lemma alloc_slots:
  assumes "slots_ok s" "e < NENV" "p \<notin> dirs s"
  shows "slots_ok (alloc_state e u p s)"
proof -
  have 1: "(env_pgdir (envs s x) = None) = (env_status (envs s x) = ENV_FREE)" if "x < NENV" for x
    using assms(1) that by (simp add: slots_ok_def)
  have 2: "y = x" if "x < NENV" "y < NENV" "env_pgdir (envs s x) = Some d" "env_pgdir (envs s y) = Some d" for x y d
    using assms(1) that unfolding slots_ok_def by blast
  have 3: "ENVX (env_id (envs s x)) = x \<and> 0 < sint (env_id (envs s x))"
    if "x < NENV" "env_status (envs s x) \<noteq> ENV_FREE" for x
    using assms(1) that by (simp add: slots_ok_def)
  have 4: "env_pgdir (envs s x) \<noteq> Some p" if "x < NENV" for x using assms(3) that by (auto simp: dirs_def)
  have e: "e < 1024" using assms(2) by (simp add: NENV_def)
  show ?thesis
    unfolding slots_ok_def alloc_pgdir alloc_status alloc_id
    using 1 2 3 4 new_id_index [OF e] new_id_positive [OF e] by (auto split: if_splits)
qed

lemma alloc_vm:
  assumes "vm_inv D s" "free_pages s = p # ps" "p \<noteq> kern_pgdir s"
  shows "vm_inv (insert p D) (alloc_state e u p s)"
  using new_space_inv(1) [OF assms, of e]
  by (simp add: alloc_state_def vm_inv_cong [of "start_env e u (new_space e p s)" "new_space e p s"])

lemma env_alloc_inv:
  assumes inv: "kinv s" and e: "env_free_list s = Some e" and fp: "free_pages s = p # ps"
  shows "kinv (alloc_state e u p s)" "dirs (alloc_state e u p s) = insert p (dirs s)" "p \<notin> dirs s"
proof -
  note h = env_head [OF kinv_list [OF inv] e]
  note vm = kinv_vm [OF inv]
  have pk: "p \<noteq> kern_pgdir s" using kern_not_free [OF inv] fp by auto
  have none: "env_pgdir (envs s e) = None" using kinv_slots [OF inv] h(1,2) by (simp add: slots_ok_def)
  have np: "p \<notin> spaces s" using new_page_unused [OF vm fp] by simp
  then show pd: "p \<notin> dirs s" by (simp add: spaces_def)
  show dd: "dirs (alloc_state e u p s) = insert p (dirs s)" by (rule alloc_dirs [OF h(1) none])
  have k: "kern_pgdir (alloc_state e u p s) = kern_pgdir s" by (simp add: alloc_state_def)
  have sp: "spaces (alloc_state e u p s) = insert p (spaces s)" by (auto simp: spaces_def dd k)
  have "kern_ok (alloc_state e u p s)"
    using kinv_kern [OF inv] pk unfolding kern_ok_def dd k by simp
  then show "kinv (alloc_state e u p s)"
    using alloc_list [OF kinv_list [OF inv] e] alloc_slots [OF kinv_slots [OF inv] h(1) pd]
      alloc_vm [OF vm fp pk] by (simp add: kinv_def sp)
qed

end
