(* ===== verification/Env_Free.thy ===== *)
theory Env_Free
  imports Env
begin

text \<open>
  Freeing an environment. The loops of \<open>env_free\<close> are followed one at a time: the entries of a
  table, the tables of a directory, the directory itself. What every page has beyond its
  mappings (\<open>excess\<close>) is constant through the first loop, which is how the references of the
  whole address space are accounted for.
\<close>

subsection \<open>One entry\<close>

lemma user_of_PDX: "unat (PDX va) < 955 \<Longrightarrow> va < UTOP"
  by (simp add: unat_PDX word_less_nat_alt layout div_less_iff_less_mult)

lemma PGADDR_index:
  assumes "i < 955" "j < 1024"
  shows "unat (PDX (PGADDR (of_nat i) (of_nat j) 0)) = i" "unat (PTX (PGADDR (of_nat i) (of_nat j) 0)) = j"
    "PGADDR (of_nat i) (of_nat j) 0 < UTOP"
proof -
  have "(of_nat i :: u32) < 1024" "(of_nat j :: u32) < 1024"
    using assms by (simp_all add: word_less_nat_alt)
  then show 1: "unat (PDX (PGADDR (of_nat i) (of_nat j) 0)) = i" "unat (PTX (PGADDR (of_nat i) (of_nat j) 0)) = j"
    using assms by (simp_all add: PDX_PGADDR PTX_PGADDR)
  show "PGADDR (of_nat i) (of_nat j) 0 < UTOP" by (rule user_of_PDX) (simp add: 1 assms)
qed

definition excess :: "nat set \<Rightarrow> kstate \<Rightarrow> nat \<Rightarrow> nat" where
  "excess D s q = unat (pp_ref (pages s q)) - card (slots D s q)"

lemma unmap_excess:
  assumes "vm_inv D s" "d \<in> D" "va < UTOP" "q < npages s"
  shows "excess D (unmap d va s) q = excess D s q"
proof (cases "entry s d (unat (PDX va)) (unat (PTX va))")
  case None
  then show ?thesis by (simp add: unmap_def)
next
  case (Some pte)
  let ?x = "(d, unat (PDX va), unat (PTX va))"
  note sh = vm_inv_shape [OF assms(1)] and px = PDX_user [OF assms(3)]
  have sl: "slots D (unmap d va s) r = slots D s r - {?x}" for r
    by (rule slots_clear) (rule unmap_entry [OF sh assms(2,3)])
  have x: "?x \<in> slots D s q \<longleftrightarrow> q = frame_of pte" using Some assms(2) px by (auto simp: slots_def)
  have "0 < unat (pp_ref (pages s (frame_of pte)))"
    by (rule vm_inv_mapped(4) [OF assms(1,2) px PTX_less Some])
  moreover have "Suc (card (slots D s q - {?x})) = card (slots D s q)" if "q = frame_of pte"
    using x that finite_slots [OF sh, of q] by (intro card_Suc_Diff1) auto
  moreover have "slots D s q - {?x} = slots D s q" if "q \<noteq> frame_of pte" using x that by auto
  ultimately show ?thesis
    using Some by (cases "q = frame_of pte") (auto simp: excess_def sl unmap_ref unat_dec16)
qed

lemma unmap_free_mono:
  assumes "vm_inv D s" "d \<in> D" "va < UTOP"
  shows "set (free_pages s) \<subseteq> set (free_pages (unmap d va s))"
proof (cases "entry s d (unat (PDX va)) (unat (PTX va))")
  case (Some pte)
  note m = vm_inv_mapped [OF assms(1,2) PDX_user [OF assms(3)] PTX_less Some]
  show ?thesis using drop_ref_free [OF vm_inv_free [OF assms(1)] m(1,2)] by (auto simp: unmap_def Some)
qed (simp add: unmap_def)

lemma free_pte_unmap:
  assumes "vm_inv D s" "d \<in> D" "i < 955" "j < 1024" "table s d i = Some t"
  shows "free_pte d t i j s = Some (unmap d (PGADDR (of_nat i) (of_nat j) 0) s)"
proof -
  note ix = PGADDR_index [OF assms(3,4)]
  have "has (mem s t j) PTE_P \<longleftrightarrow> entry s d i j \<noteq> None" by (rule entry_present [OF assms(5)])
  then show ?thesis
    using page_remove_unmap [OF assms(1,2) ix(3)] by (auto simp: free_pte_def unmap_def ix)
qed

subsection \<open>One table\<close>

text \<open>What the loop over a table keeps, after \<open>n\<close> entries.\<close>

definition cleared :: "nat set \<Rightarrow> nat \<Rightarrow> nat \<Rightarrow> nat \<Rightarrow> kstate \<Rightarrow> kstate \<Rightarrow> bool" where
  "cleared D d i n s s' \<longleftrightarrow> vm_inv D s' \<and> vm_only s s' \<and>
     (\<forall>d' \<in> D. \<forall>i'. table s' d' i' = table s d' i') \<and>
     (\<forall>d' \<in> D. \<forall>i' < 955. \<forall>j'. entry s' d' i' j' = (if d' = d \<and> i' = i \<and> j' < n then None else entry s d' i' j')) \<and>
     (\<forall>q < npages s. excess D s' q = excess D s q) \<and> set (free_pages s) \<subseteq> set (free_pages s')"

lemma free_pte_loop:
  assumes "vm_inv D s" "d \<in> D" "i < 955" "table s d i = Some t" "n \<le> 1024"
  shows "\<exists>s'. mfold (free_pte d t i) [0..<n] s = Some s' \<and> cleared D d i n s s'"
  using assms(5)
proof (induction n)
  case 0
  then show ?case using assms(1) by (simp add: cleared_def)
next
  case (Suc n)
  then obtain s1 where s1: "mfold (free_pte d t i) [0..<n] s = Some s1" "cleared D d i n s s1" by auto
  let ?va = "PGADDR (of_nat i) (of_nat n) 0"
  have n: "n < 1024" using Suc.prems by simp
  note ix = PGADDR_index [OF assms(3) n]
  have inv: "vm_inv D s1" "table s1 d i = Some t" "npages s1 = npages s"
    using s1(2) assms(2,4) by (auto simp: cleared_def vm_only_def)
  note u = free_pte_unmap [OF inv(1) assms(2,3) n inv(2)]
  have "cleared D d i (Suc n) s (unmap d ?va s1)"
    using s1(2) unmap_inv [OF inv(1) assms(2) ix(3)] unmap_table [OF vm_inv_shape [OF inv(1)] assms(2) ix(3)]
      unmap_entry [OF vm_inv_shape [OF inv(1)] assms(2) ix(3)] unmap_excess [OF inv(1) assms(2) ix(3)] inv(3)
      unmap_free_mono [OF inv(1) assms(2) ix(3)]
    by (auto simp: cleared_def ix less_Suc_eq)
  then show ?case using s1(1) u by (simp add: mfold_append)
qed

text \<open>Giving an empty table back.\<close>

lemma drop_table:
  assumes "vm_inv D s" "d \<in> D" "i < 955" "table s d i = Some t" "\<And>j. j < 1024 \<Longrightarrow> entry s d i j = None"
  defines "s' \<equiv> drop_ref t (mem_set d i 0 s)"
  shows "vm_inv D s'" "vm_only s s'"
    "\<And>d' i'. d' \<in> D \<Longrightarrow> table s' d' i' = (if d' = d \<and> i' = i then None else table s d' i')"
    "\<And>d' i' j'. d' \<in> D \<Longrightarrow> i' < 955 \<Longrightarrow> entry s' d' i' j' = (if d' = d \<and> i' = i then None else entry s d' i' j')"
    "\<And>q. slots D s' q = slots D s q"
    "\<And>q. pp_ref (pages s' q) = (if q = t then 0 else pp_ref (pages s q))"
    "page_decref t (mem_set d i 0 s) = Some s'" "free_pages s' = t # free_pages s"
proof -
  note sh = vm_inv_shape [OF assms(1)]
  have t: "t \<in> tables D s" using assms(2-4) by (auto simp: tables_def)
  then have tp: "t < npages s" "pp_ref (pages s t) = 1" "slots D s t = {}" "t \<notin> D"
    using assms(1) shapeD(2) [OF sh assms(2-4)] by (auto simp: vm_inv_def)
  then have tf: "t \<notin> set (free_pages s)" using vm_inv_free [OF assms(1)] by (auto simp: free_ok_def)
  let ?m = "mem_set d i 0 s"
  have fm: "free_ok ?m" "t < npages ?m" "t \<notin> set (free_pages ?m)"
    using vm_inv_free [OF assms(1)] tp tf by simp_all
  show dr: "page_decref t ?m = Some s'" unfolding s'_def by (rule page_decref_ok [OF fm])
  show fp: "free_pages s' = t # free_pages s" using drop_ref_free [OF fm] tp by (simp add: s'_def)
  show ref: "pp_ref (pages s' q) = (if q = t then 0 else pp_ref (pages s q))" for q
    using tp by (simp add: s'_def)
  show only: "vm_only s s'" by (simp add: vm_only_def s'_def)
  show tb: "table s' d' i' = (if d' = d \<and> i' = i then None else table s d' i')" if "d' \<in> D" for d' i'
    by (simp add: table_def s'_def has_def)
  show en: "entry s' d' i' j' = (if d' = d \<and> i' = i then None else entry s d' i' j')"
    if "d' \<in> D" "i' < 955" for d' i' j'
  proof (cases "d' = d \<and> i' = i")
    case False
    then have "table s' d' i' = table s d' i'" using tb [OF that(1), of i'] by auto
    moreover have "u \<noteq> d" if "table s d' i' = Some u" for u
      using shapeD(2) [OF sh \<open>d' \<in> D\<close> \<open>i' < 955\<close> that] assms(2) by auto
    ultimately show ?thesis using False by (auto simp: entry_def s'_def split: option.split)
  qed (use tb [OF that(1), of i'] in \<open>auto simp: entry_def\<close>)
  show sl: "slots D s' q = slots D s q" for q by (rule slots_cong) (auto simp: en assms(5))
  have sub: "tables D s' \<subseteq> tables D s - {t}"
  proof
    fix u assume "u \<in> tables D s'"
    then obtain d' i' where u: "d' \<in> D" "i' < 955" "table s' d' i' = Some u" by (auto simp: tables_def)
    then have "table s d' i' = Some u" "\<not> (d' = d \<and> i' = i)" using tb by (auto split: if_splits)
    moreover from this have "u \<noteq> t" using shapeD(3) [OF sh assms(2-4) u(1,2)] by auto
    ultimately show "u \<in> tables D s - {t}" using u by (auto simp: tables_def)
  qed
  have "pt_shape D s'"
    unfolding pt_shape_def
  proof (intro conjI ballI allI impI)
    show "finite D" using sh by (simp add: pt_shape_def)
    fix d1 i1 u assume 1: "d1 \<in> D" "i1 < 955" "table s' d1 i1 = Some u"
    then have o1: "table s d1 i1 = Some u" using tb by (auto split: if_splits)
    show "u < npages s'" "u \<notin> D" using shapeD(1,2) [OF sh 1(1,2) o1] only by (auto simp: vm_only_def)
    fix d2 i2 assume 2: "d2 \<in> D" "i2 < 955" "table s' d2 i2 = Some u"
    then have "table s d2 i2 = Some u" using tb by (auto split: if_splits)
    then show "d2 = d1" "i2 = i1" using shapeD(3) [OF sh 1(1,2) o1 2(1,2)] by auto
  qed
  moreover have "free_ok s'" using drop_ref_free [OF fm] by (simp add: s'_def)
  moreover have "npages s' = npages s" using only by (simp add: vm_only_def)
  ultimately show "vm_inv D s'"
    using assms(1) sub tp ref unfolding vm_inv_def sl by auto
qed

subsection \<open>One directory\<close>

text \<open>What the loop over a directory keeps, after \<open>n\<close> tables.\<close>

definition dropped :: "nat set \<Rightarrow> nat \<Rightarrow> nat \<Rightarrow> kstate \<Rightarrow> kstate \<Rightarrow> bool" where
  "dropped D d n s s' \<longleftrightarrow> vm_inv D s' \<and> vm_only s s' \<and>
     (\<forall>d' \<in> D. \<forall>i'. table s' d' i' = (if d' = d \<and> i' < n then None else table s d' i')) \<and>
     (\<forall>d' \<in> D. \<forall>i' < 955. \<forall>j'. d' \<noteq> d \<longrightarrow> entry s' d' i' j' = entry s d' i' j') \<and>
     (\<forall>q < npages s. q \<notin> tables {d} s \<longrightarrow> excess D s' q = excess D s q) \<and>
     set (free_pages s) \<union> {t. \<exists>i < n. table s d i = Some t} \<subseteq> set (free_pages s')"

lemma free_table_drop:
  assumes "vm_inv D s" "d \<in> D" "i < 955" "table s d i = Some t"
  shows "\<exists>s'. free_table d i s = Some s' \<and> vm_inv D s' \<and> vm_only s s' \<and>
    (\<forall>d' \<in> D. \<forall>i'. table s' d' i' = (if d' = d \<and> i' = i then None else table s d' i')) \<and>
    (\<forall>d' \<in> D. \<forall>i' < 955. \<forall>j'. d' \<noteq> d \<longrightarrow> entry s' d' i' j' = entry s d' i' j') \<and>
    (\<forall>q < npages s. q \<noteq> t \<longrightarrow> excess D s' q = excess D s q) \<and>
    insert t (set (free_pages s)) \<subseteq> set (free_pages s')"
proof -
  have pde: "has (mem s d i) PTE_P" "unat (PGNUM (mem s d i)) = t" "t < npages s"
    using assms(4) shapeD(1) [OF vm_inv_shape [OF assms(1)] assms(2-4)] by (auto simp: table_def split: if_splits)
  obtain s1 where s1: "mfold (free_pte d t i) [0..<1024] s = Some s1" "cleared D d i 1024 s s1"
    using free_pte_loop [OF assms, of 1024] by auto
  have inv1: "vm_inv D s1" and only1: "vm_only s s1" and tb1: "table s1 d i = Some t"
    using s1(2) assms(2,4) by (auto simp: cleared_def)
  have none: "entry s1 d i j = None" if "j < 1024" for j
    using s1(2) assms(2,3) that by (auto simp: cleared_def)
  note dt = drop_table [OF inv1 assms(2,3) tb1 none]
  let ?s = "drop_ref t (mem_set d i 0 s1)"
  have np1: "npages s1 = npages s" using only1 by (simp add: vm_only_def)
  have "free_table d i s = Some ?s"
    using pde s1(1) dt(7) np1 by (simp add: free_table_def kaddr_def pa2page_def del: upt_rec_numeral)
  moreover have "vm_only s ?s" using vm_only_trans [OF only1 dt(2)] .
  moreover have "excess D ?s q = excess D s q" if "q < npages s" "q \<noteq> t" for q
    using s1(2) that dt(5,6) by (simp add: excess_def cleared_def)
  ultimately show ?thesis using dt(1,3,4,8) s1(2)
    by (intro exI [of _ ?s]) (auto simp: cleared_def)
qed

lemma droppedD:
  assumes "dropped D d n s s'"
  shows "vm_inv D s'" "vm_only s s'" "npages s' = npages s"
    "\<And>d' i'. d' \<in> D \<Longrightarrow> table s' d' i' = (if d' = d \<and> i' < n then None else table s d' i')"
    "\<And>d' i' j'. d' \<in> D \<Longrightarrow> i' < 955 \<Longrightarrow> d' \<noteq> d \<Longrightarrow> entry s' d' i' j' = entry s d' i' j'"
    "\<And>q. q < npages s \<Longrightarrow> q \<notin> tables {d} s \<Longrightarrow> excess D s' q = excess D s q"
    "set (free_pages s) \<subseteq> set (free_pages s')"
    "\<And>i t. i < n \<Longrightarrow> table s d i = Some t \<Longrightarrow> t \<in> set (free_pages s')"
  using assms unfolding dropped_def vm_only_def by (simp_all, blast?)

lemma droppedI:
  assumes "vm_inv D s'" "vm_only s s'"
    "\<And>d' i'. d' \<in> D \<Longrightarrow> table s' d' i' = (if d' = d \<and> i' < n then None else table s d' i')"
    "\<And>d' i' j'. d' \<in> D \<Longrightarrow> i' < 955 \<Longrightarrow> d' \<noteq> d \<Longrightarrow> entry s' d' i' j' = entry s d' i' j'"
    "\<And>q. q < npages s \<Longrightarrow> q \<notin> tables {d} s \<Longrightarrow> excess D s' q = excess D s q"
    "set (free_pages s) \<subseteq> set (free_pages s')"
    "\<And>i t. i < n \<Longrightarrow> table s d i = Some t \<Longrightarrow> t \<in> set (free_pages s')"
  shows "dropped D d n s s'"
  unfolding dropped_def using assms by (intro conjI ballI allI impI Un_least) blast+

lemma dropped_skip:
  assumes "dropped D d n s s1" "table s d n = None"
  shows "dropped D d (Suc n) s s1"
proof (rule droppedI)
  note D = droppedD [OF assms(1)]
  show "vm_inv D s1" "vm_only s s1" "set (free_pages s) \<subseteq> set (free_pages s1)" by (fact D)+
  show "table s1 d' i' = (if d' = d \<and> i' < Suc n then None else table s d' i')" if "d' \<in> D" for d' i'
    using D(4) [OF that, of i'] assms(2) by (cases "i' = n") auto
  show "entry s1 d' i' j' = entry s d' i' j'" if "d' \<in> D" "i' < 955" "d' \<noteq> d" for d' i' j'
    by (rule D(5) [OF that])
  show "excess D s1 q = excess D s q" if "q < npages s" "q \<notin> tables {d} s" for q by (rule D(6) [OF that])
  show "t \<in> set (free_pages s1)" if "i < Suc n" "table s d i = Some t" for i t
    using D(8) [OF _ that(2)] that assms(2) by (cases "i = n") auto
qed

lemma dropped_next:
  assumes "dropped D d n s s1" "d \<in> D" "n < 955" "table s d n = Some t"
  shows "\<exists>s2. free_table d n s1 = Some s2 \<and> dropped D d (Suc n) s s2"
proof -
  note D = droppedD [OF assms(1)]
  have t1: "table s1 d n = Some t" using D(4) [OF assms(2), of n] assms(4) by simp
  have tt: "t \<in> tables {d} s" using assms(3,4) by (auto simp: tables_def)
  obtain s2 where e2: "free_table d n s1 = Some s2"
    and S: "vm_inv D s2 \<and> vm_only s1 s2 \<and>
    (\<forall>d' \<in> D. \<forall>i'. table s2 d' i' = (if d' = d \<and> i' = n then None else table s1 d' i')) \<and>
    (\<forall>d' \<in> D. \<forall>i' < 955. \<forall>j'. d' \<noteq> d \<longrightarrow> entry s2 d' i' j' = entry s1 d' i' j') \<and>
    (\<forall>q < npages s1. q \<noteq> t \<longrightarrow> excess D s2 q = excess D s1 q) \<and>
    insert t (set (free_pages s1)) \<subseteq> set (free_pages s2)"
    using free_table_drop [OF D(1) assms(2,3) t1] by (elim exE conjE) (rule that, assumption, intro conjI)
  have tb2: "table s2 d' i' = (if d' = d \<and> i' = n then None else table s1 d' i')" if "d' \<in> D" for d' i'
    using S that by blast
  have en2: "entry s2 d' i' j' = entry s1 d' i' j'" if "d' \<in> D" "i' < 955" "d' \<noteq> d" for d' i' j'
    using S that by blast
  have ex2: "excess D s2 q = excess D s1 q" if "q < npages s1" "q \<noteq> t" for q
    using S that by blast
  have fr2: "insert t (set (free_pages s1)) \<subseteq> set (free_pages s2)" using S by (elim conjE)
  have s2: "vm_inv D s2" "vm_only s1 s2" using S by blast+
  have "dropped D d (Suc n) s s2"
  proof (rule droppedI)
    show "vm_inv D s2" by (rule s2(1))
    show "vm_only s s2" by (rule vm_only_trans [OF D(2) s2(2)])
    show "set (free_pages s) \<subseteq> set (free_pages s2)" using D(7) fr2 by blast
    show "table s2 d' i' = (if d' = d \<and> i' < Suc n then None else table s d' i')" if "d' \<in> D" for d' i'
      using tb2 [OF that, of i'] D(4) [OF that, of i'] by (cases "i' = n") auto
    show "entry s2 d' i' j' = entry s d' i' j'" if "d' \<in> D" "i' < 955" "d' \<noteq> d" for d' i' j'
      using en2 [OF that] D(5) [OF that] by simp
    show "excess D s2 q = excess D s q" if "q < npages s" "q \<notin> tables {d} s" for q
      using ex2 [of q] D(3) D(6) [OF that] that tt by auto
    show "u \<in> set (free_pages s2)" if "i < Suc n" "table s d i = Some u" for i u
      using D(8) [OF _ that(2)] that assms(4) fr2 by (cases "i = n") auto
  qed
  with e2 show ?thesis by blast
qed

lemma free_table_loop:
  assumes "vm_inv D s" "d \<in> D" "n \<le> 955"
  shows "\<exists>s'. mfold (free_table d) [0..<n] s = Some s' \<and> dropped D d n s s'"
  using assms(3)
proof (induction n)
  case 0
  then show ?case using assms(1) by (simp add: dropped_def)
next
  case (Suc n)
  then obtain s1 where s1: "mfold (free_table d) [0..<n] s = Some s1" "dropped D d n s s1" by auto
  have "\<exists>s2. free_table d n s1 = Some s2 \<and> dropped D d (Suc n) s s2"
  proof (cases "table s d n")
    case None
    then have "table s1 d n = None" using droppedD(4) [OF s1(2) assms(2), of n] by simp
    then have "free_table d n s1 = Some s1" by (simp add: free_table_def table_def split: if_splits)
    with dropped_skip [OF s1(2) None] show ?thesis by blast
  next
    case (Some t)
    then show ?thesis using dropped_next [OF s1(2) assms(2) _ Some] Suc.prems by simp
  qed
  with s1(1) show ?case by (auto simp: mfold_append)
qed

text \<open>Giving an empty directory back.\<close>

lemma pt_shape_subset: "pt_shape D s \<Longrightarrow> D' \<subseteq> D \<Longrightarrow> pt_shape D' s"
  unfolding pt_shape_def by (meson finite_subset subset_iff)

lemma drop_dir:
  assumes "vm_inv D s" "d \<in> D" and none: "\<And>i. i < 955 \<Longrightarrow> table s d i = None"
  shows "vm_inv (D - {d}) (drop_ref d s)" "page_decref d s = Some (drop_ref d s)"
    "free_pages (drop_ref d s) = d # free_pages s"
    "\<And>q. slots (D - {d}) s q = slots D s q" "tables (D - {d}) s = tables D s"
proof -
  have d: "d < npages s" "pp_ref (pages s d) = 1" "slots D s d = {}" using assms(1,2) by (auto simp: vm_inv_def)
  then have df: "d \<notin> set (free_pages s)" using vm_inv_free [OF assms(1)] by (auto simp: free_ok_def)
  note fr = vm_inv_free [OF assms(1)]
  show "page_decref d s = Some (drop_ref d s)" by (rule page_decref_ok [OF fr d(1) df])
  show "free_pages (drop_ref d s) = d # free_pages s" using drop_ref_free [OF fr d(1) df] d(2) by simp
  have m: "mem (drop_ref d s) = mem s" by simp
  show sl: "slots (D - {d}) s q = slots D s q" for q using none by (auto simp: slots_def entry_def)
  show tb: "tables (D - {d}) s = tables D s" using none by (auto simp: tables_def)
  have dt: "d \<notin> tables D s"
    using shapeD(2) [OF vm_inv_shape [OF assms(1)]] assms(2) by (auto simp: tables_def)
  have sh: "pt_shape (D - {d}) (drop_ref d s)"
    using pt_shape_subset [OF vm_inv_shape [OF assms(1)], of "D - {d}"]
      pt_shape_cong [of "D - {d}" "drop_ref d s" s] table_mem [OF m] by auto
  have tb': "tables (D - {d}) (drop_ref d s) = tables D s"
    using tb unfolding tables_def table_mem [OF m] by simp
  have sl': "slots (D - {d}) (drop_ref d s) q = slots D s q" for q using slots_mem [OF m] sl by simp
  show "vm_inv (D - {d}) (drop_ref d s)"
    using assms(1) drop_ref_free [OF fr d(1) df] sh d dt unfolding vm_inv_def sl' tb' by auto
qed

lemma card_slots_split:
  assumes "pt_shape D s" "d \<in> D"
  shows "card (slots D s q) = card (slots (D - {d}) s q) + card (slots {d} s q)"
proof -
  have "slots D s q = slots (D - {d}) s q \<union> slots {d} s q" using assms(2) by (auto simp: slots_def)
  moreover have "slots (D - {d}) s q \<inter> slots {d} s q = {}" by (auto simp: slots_def)
  moreover have "finite (slots D s q)" by (rule finite_slots [OF assms(1)])
  ultimately show ?thesis by (metis card_Un_disjoint finite_Un)
qed

subsection \<open>The whole environment\<close>

definition release :: "nat \<Rightarrow> nat \<Rightarrow> kstate \<Rightarrow> kstate" where
  "release e d s =
    (let s = drop_ref d (env_upd e (\<lambda>v. v\<lparr>env_pgdir := None\<rparr>) s);
         s = env_upd e (\<lambda>v. v\<lparr>env_status := ENV_FREE, env_link := env_free_list s\<rparr>) s
     in s\<lparr>env_free_list := Some e\<rparr>)"

lemma drop_ref_env:
  "pages (drop_ref d (env_upd e f s)) = pages (drop_ref d s)"
  "page_free_list (drop_ref d (env_upd e f s)) = page_free_list (drop_ref d s)"
  by (simp_all only: drop_ref_def Let_def put_page_def page_upd_def env_upd_def kstate.simps split: if_split) auto

lemma release_fields [simp]:
  "npages (release e d s) = npages s" "kern_pgdir (release e d s) = kern_pgdir s"
  "mem (release e d s) = mem s" "pages (release e d s) = pages (drop_ref d s)"
  "page_free_list (release e d s) = page_free_list (drop_ref d s)"
  "cpus (release e d s) = cpus s" "cpunum (release e d s) = cpunum s" "cr3 (release e d s) = cr3 s"
  "kernel_lock (release e d s) = kernel_lock s" "env_free_list (release e d s) = Some e"
  "env_pgdir (envs (release e d s) x) = (if x = e then None else env_pgdir (envs s x))"
  "env_status (envs (release e d s) x) = (if x = e then ENV_FREE else env_status (envs s x))"
  "env_link (envs (release e d s) x) = (if x = e then env_free_list s else env_link (envs s x))"
  "env_id (envs (release e d s) x) = env_id (envs s x)"
  by (simp_all add: release_def Let_def drop_ref_env)

lemma release_dirs:
  assumes "slots_ok s" "e < NENV" "env_pgdir (envs s e) = Some d"
  shows "dirs (release e d s) = dirs s - {d}"
proof -
  have "x = e" if "x < NENV" "env_pgdir (envs s x) = Some d" for x
    using assms that unfolding slots_ok_def by blast
  then have u: "env_pgdir (envs s x) = Some d \<longleftrightarrow> x = e" if "x < NENV" for x using that assms(3) by blast
  have "c \<in> dirs (release e d s) \<longleftrightarrow> c \<in> dirs s - {d}" for c
  proof -
    have "c \<in> dirs (release e d s) \<longleftrightarrow> (\<exists>x < NENV. x \<noteq> e \<and> env_pgdir (envs s x) = Some c)"
      by (simp add: dirs_def) (metis option.distinct(1))
    also have "\<dots> \<longleftrightarrow> c \<in> dirs s - {d}" using u by (simp add: dirs_def) (metis assms(3) option.inject)
    finally show ?thesis .
  qed
  then show ?thesis by blast
qed

lemma release_slots:
  assumes "slots_ok s" shows "slots_ok (release e d s)"
proof -
  have 1: "(env_pgdir (envs s x) = None) = (env_status (envs s x) = ENV_FREE)" if "x < NENV" for x
    using assms that by (simp add: slots_ok_def)
  have 2: "y = x" if "x < NENV" "y < NENV" "env_pgdir (envs s x) = Some d" "env_pgdir (envs s y) = Some d" for x y d
    using assms that unfolding slots_ok_def by blast
  have 3: "ENVX (env_id (envs s x)) = x \<and> 0 < sint (env_id (envs s x))"
    if "x < NENV" "env_status (envs s x) \<noteq> ENV_FREE" for x
    using assms that by (simp add: slots_ok_def)
  show ?thesis unfolding slots_ok_def release_fields using 1 2 3 by (auto split: if_splits)
qed

lemma release_list:
  assumes "env_list_ok s" "e < NENV" "env_status (envs s e) \<noteq> ENV_FREE"
  shows "env_list_ok (release e d s) \<and> free_envs (release e d s) = e # free_envs s"
proof (rule env_list_okI)
  have e: "e \<notin> set (free_envs s)" using assms by (auto simp: env_list_ok_def)
  have nx: "env_next (release e d s) = (env_next s)(e := env_free_list s)"
    by (rule ext) (simp add: env_next_def)
  show "links (env_next (release e d s)) (env_free_list (release e d s)) (e # free_envs s)"
    using assms(1) e by (simp add: nx env_list_ok_def)
  show "set (e # free_envs s) = {x. x < NENV \<and> env_status (envs (release e d s) x) = ENV_FREE}"
    using assms(1,2) by (auto simp: env_list_ok_def)
qed

lemma dropped_slots:
  assumes "dropped D d 955 s s'" "d \<in> D"
  shows "slots D s' q = slots (D - {d}) s q"
proof -
  note D = droppedD [OF assms(1)]
  have 1: "entry s' d i j = None" if "i < 955" for i j using D(4) [OF assms(2), of i] that by (simp add: entry_def)
  have "slots D s' q = slots (D - {d}) s' q" using 1 by (auto simp: slots_def)
  also have "\<dots> = slots (D - {d}) s q" by (rule slots_cong) (simp add: D(5))
  finally show ?thesis .
qed

lemma dropped_ref:
  assumes "dropped D d 955 s s'" "vm_inv D s" "d \<in> D" "q < npages s" "q \<notin> tables {d} s"
  shows "unat (pp_ref (pages s' q)) = unat (pp_ref (pages s q)) - card (slots {d} s q)"
proof -
  note D = droppedD [OF assms(1)]
  have "card (slots D s' q) \<le> unat (pp_ref (pages s' q))" "card (slots D s q) \<le> unat (pp_ref (pages s q))"
    using D(1,3) assms(2,4) by (auto simp: vm_inv_def)
  then show ?thesis
    using D(6) [OF assms(4,5)] card_slots_split [OF vm_inv_shape [OF assms(2)] assms(3), of q]
      dropped_slots [OF assms(1,3), of q] by (simp add: excess_def)
qed

lemma release_inv:
  assumes "kinv s" "e < NENV" "env_pgdir (envs s e) = Some d" "dropped (spaces s) d 955 s s1"
  shows "kinv (release e d s1)" "free_envs (release e d s1) = e # free_envs s" "dirs (release e d s1) = dirs s - {d}"
    "page_decref d s1 = Some (drop_ref d s1)" "free_pages (release e d s1) = d # free_pages s1"
proof -
  note D = droppedD [OF assms(4)] and vm = kinv_vm [OF assms(1)]
  have dd: "d \<in> dirs s" using assms(2,3) by (auto simp: dirs_def)
  then have d: "d \<in> spaces s" "d \<noteq> kern_pgdir s" using kinv_kern [OF assms(1)] by (auto simp: spaces_def kern_ok_def)
  have ev: "envs s1 = envs s" "env_free_list s1 = env_free_list s" using D(2) by (simp_all add: vm_only_def)
  have sm: "slots_ok s1" "env_list_ok s1" "dirs s1 = dirs s" "free_envs s1 = free_envs s"
    using kinv_slots [OF assms(1)] kinv_list [OF assms(1)] ev
    by (simp_all add: slots_ok_def env_list_ok_def dirs_def free_envs_def env_next_def [abs_def])
  have st: "env_status (envs s1 e) \<noteq> ENV_FREE" "env_pgdir (envs s1 e) = Some d"
    using kinv_slots [OF assms(1)] assms(2,3) ev by (auto simp: slots_ok_def)
  have none: "table s1 d i = None" if "i < 955" for i using D(4) [OF d(1), of i] that by simp
  note dr = drop_dir [OF D(1) d(1) none]
  show ds: "dirs (release e d s1) = dirs s - {d}" using release_dirs [OF sm(1) assms(2) st(2)] sm(3) by simp
  show fe: "free_envs (release e d s1) = e # free_envs s" using release_list [OF sm(2) assms(2) st(1)] sm(4) by simp
  show "page_decref d s1 = Some (drop_ref d s1)" by (rule dr(2))
  have pn: "page_next (release e d s1) = page_next (drop_ref d s1)" by (rule ext) (simp add: page_next_def)
  show "free_pages (release e d s1) = d # free_pages s1" using dr(3) by (simp add: free_pages_def pn)
  have k: "kern_pgdir s1 = kern_pgdir s" using D(2) by (simp add: vm_only_def)
  have sp: "spaces (release e d s1) = spaces s - {d}" using d(2) by (auto simp: spaces_def ds k)
  have vm': "vm_inv (spaces s - {d}) (release e d s1)"
    using dr(1) vm_inv_cong [of "release e d s1" "drop_ref d s1"] by simp
  have m: "mem (release e d s1) = mem s1" by simp
  have "kern_ok (release e d s1)"
    using kinv_kern [OF assms(1)] by (simp add: kern_ok_def ds k table_mem [OF m])
  then show "kinv (release e d s1)"
    using vm' release_list [OF sm(2) assms(2) st(1)] release_slots [OF sm(1)] by (simp add: kinv_def sp)
qed

lemma env_free_run:
  assumes "env_pgdir (envs s e) = Some d" "d < npages s" "npages s \<le> 2 ^ 20"
    and "mfold (free_table d) [0..<955] (if curenv s = Some e then lcr3 (kern_pgdir s) s else s) = Some s1"
    and "free_ok s1" "d \<notin> set (free_pages s1)" "npages s1 = npages s"
  shows "env_free e s = Some (release e d s1)"
proof -
  let ?u = "env_upd e (\<lambda>v. v\<lparr>env_pgdir := None\<rparr>) s1"
  have pn: "page_next ?u = page_next s1" by (rule ext) (simp add: page_next_def)
  have fp: "free_pages ?u = free_pages s1" by (simp add: free_pages_def pn)
  have "free_ok ?u" using assms(5) by (simp add: free_ok_def fp pn)
  then have "page_decref d ?u = Some (drop_ref d ?u)" using assms(2,6,7) fp by (intro page_decref_ok) simp_all
  then show ?thesis
    using assms(1-4,7)
    by (cases "curenv s = Some e") (simp_all add: env_free_def release_def Let_def layout PDX_def del: upt_rec_numeral)
qed

subsection \<open>A small environment table\<close>

definition four_free :: kstate where
  "four_free = page_upd 302 (\<lambda>p. p\<lparr>pp_link := Some 303\<rparr>) (page_upd 301 (\<lambda>p. p\<lparr>pp_link := Some 302\<rparr>)
     (page_upd 300 (\<lambda>p. p\<lparr>pp_link := Some 301\<rparr>) (boot_state\<lparr>page_free_list := Some 300\<rparr>)))"

lemma four_free_ok: "free_ok four_free" and four_free_pages: "free_pages four_free = [300, 301, 302, 303]"
proof -
  have "free_ok four_free \<and> free_pages four_free = [300, 301, 302, 303]"
    by (rule free_okI) (auto simp: four_free_def page_next_def)
  then show "free_ok four_free" "free_pages four_free = [300, 301, 302, 303]" by auto
qed

definition env_demo :: kstate where
  "env_demo = page_upd 272 (\<lambda>p. p\<lparr>pp_ref := 1\<rparr>) (env_init four_free)"

definition env_started :: kstate where
  "env_started = alloc_state 0 0 300 env_demo"

lemma env_init_fields [simp]:
  "npages (env_init s) = npages s" "kern_pgdir (env_init s) = kern_pgdir s" "mem (env_init s) = mem s"
  "pages (env_init s) = pages s" "page_free_list (env_init s) = page_free_list s" "cpus (env_init s) = cpus s"
  "cpunum (env_init s) = cpunum s" "env_free_list (env_init s) = Some 0"
  "env_pgdir (envs (env_init s) e) = env_pgdir (envs s e)"
  "env_status (envs (env_init s) e) = env_status (envs s e)"
proof -
  let ?f = "\<lambda>i. env_upd i (\<lambda>e. e\<lparr>env_link := Some (i + 1), env_id := 0\<rparr>)"
  have *: "npages (fold ?f xs s) = npages s \<and> kern_pgdir (fold ?f xs s) = kern_pgdir s \<and>
    mem (fold ?f xs s) = mem s \<and> pages (fold ?f xs s) = pages s \<and>
    page_free_list (fold ?f xs s) = page_free_list s \<and> cpus (fold ?f xs s) = cpus s \<and>
    cpunum (fold ?f xs s) = cpunum s \<and> env_pgdir (envs (fold ?f xs s) e) = env_pgdir (envs s e) \<and>
    env_status (envs (fold ?f xs s) e) = env_status (envs s e)" for xs
    by (induction xs arbitrary: s) auto
  show "npages (env_init s) = npages s" "kern_pgdir (env_init s) = kern_pgdir s" "mem (env_init s) = mem s"
    "pages (env_init s) = pages s" "page_free_list (env_init s) = page_free_list s" "cpus (env_init s) = cpus s"
    "cpunum (env_init s) = cpunum s" "env_free_list (env_init s) = Some 0"
    "env_pgdir (envs (env_init s) e) = env_pgdir (envs s e)"
    "env_status (envs (env_init s) e) = env_status (envs s e)"
    using * [of "[0..<NENV - 1]"] by (simp_all add: env_init_def)
qed

lemma env_init_id: "env_id (envs s e) = 0 \<Longrightarrow> env_id (envs (env_init s) e) = 0"
proof -
  have "env_id (envs s e) = 0 \<Longrightarrow>
    env_id (envs (fold (\<lambda>i. env_upd i (\<lambda>e. e\<lparr>env_link := Some (i + 1), env_id := 0\<rparr>)) xs s) e) = 0" for xs
    by (induction xs arbitrary: s) auto
  then show "env_id (envs s e) = 0 \<Longrightarrow> env_id (envs (env_init s) e) = 0" by (simp add: env_init_def)
qed

lemma env_demo_fields:
  "npages env_demo = 1024" "kern_pgdir env_demo = 272" "mem env_demo f i = 0"
  "free_pages env_demo = [300, 301, 302, 303]" "free_ok env_demo" "env_free_list env_demo = Some 0"
  "env_pgdir (envs env_demo e) = None" "env_status (envs env_demo e) = ENV_FREE"
  "pp_ref (pages env_demo q) = (if q = 272 then 1 else 0)"
proof -
  have n: "page_next (env_init four_free) = page_next four_free" by (rule ext) (simp add: page_next_def)
  have ok: "free_ok (env_init four_free)" "free_pages (env_init four_free) = [300, 301, 302, 303]"
    using four_free_ok four_free_pages by (simp_all add: free_ok_def free_pages_def n)
  show "free_pages env_demo = [300, 301, 302, 303]" "free_ok env_demo"
    using ok by (simp_all add: env_demo_def free_ok_ref)
qed (simp_all add: env_demo_def four_free_def zero_env_def)

lemma env_demo_inv: "kinv env_demo" and env_demo_dirs: "dirs env_demo = {}"
proof -
  have l: "env_list_ok env_demo"
  proof -
    have "env_list_ok (env_init four_free)"
      by (rule env_init_list [THEN conjunct1]) (simp_all add: four_free_def zero_env_def)
    moreover have "env_next env_demo = env_next (env_init four_free)"
      by (rule ext) (simp add: env_demo_def env_next_def)
    ultimately show ?thesis by (simp add: env_list_ok_def free_envs_def env_demo_def)
  qed
  show d: "dirs env_demo = {}" by (simp add: dirs_def env_demo_fields)
  have "slots_ok env_demo" by (simp add: slots_ok_def env_demo_fields)
  moreover have t: "table env_demo f i = None" for f i by (simp add: table_def env_demo_fields has_def)
  then have "slots {272} env_demo q = {}" for q by (auto simp: slots_def entry_def)
  with t have "vm_inv {272} env_demo" "kern_ok env_demo"
    by (simp_all add: vm_inv_def kern_ok_def pt_shape_def tables_def d env_demo_fields)
  ultimately show "kinv env_demo" using l d by (simp add: kinv_def spaces_def env_demo_fields)
qed

subsection \<open>Properties\<close>

text \<open>C5: allocating an environment, with a free slot \<open>e\<close> and a free page \<open>p\<close>. The call succeeds and
  keeps the kernel's invariant; the new page directory \<open>p\<close> is empty below \<open>UTOP\<close> and copies the
  kernel's above, apart from the recursive entry; no other address space changes; the identifier
  names slot \<open>e\<close>, is positive and resolves to \<open>e\<close>, and the identifier the slot had before no
  longer resolves.\<close>

theorem env_alloc_correct:
  assumes "kinv s" "env_free_list s = Some e" "free_pages s = p # ps"
  shows "\<exists>s'. env_alloc u s = Some (0, Some e, s') \<and> kinv s' \<and> dirs s' = insert p (dirs s) \<and> p \<notin> dirs s \<and>
    (\<forall>i < 955. table s' p i = None) \<and>
    (\<forall>i. 955 \<le> i \<and> i < 1024 \<and> i \<noteq> 957 \<longrightarrow>
      mem s' p i = (if has (mem s (kern_pgdir s) i) PTE_P then mem s (kern_pgdir s) i else 0)) \<and>
    (\<forall>d \<in> dirs s. \<forall>i < 955. \<forall>j. entry s' d i j = entry s d i j) \<and>
    ENVX (env_id (envs s' e)) = e \<and> 0 < sint (env_id (envs s' e)) \<and>
    envid2env (env_id (envs s' e)) False s' = Some (0, Some e) \<and>
    (env_id (envs s e) \<noteq> 0 \<and> ENVX (env_id (envs s e)) = e \<longrightarrow>
      envid2env (env_id (envs s e)) c s' = Some (- E_BAD_ENV, None))"
proof -
  let ?s = "alloc_state e u p s"
  note vm = kinv_vm [OF assms(1)]
  have e: "e < 1024" using env_head(1) [OF kinv_list [OF assms(1)] assms(2)] by (simp add: NENV_def)
  have pk: "p \<noteq> kern_pgdir s" using kern_not_free [OF assms(1)] assms(3) by auto
  note ns = new_space_inv [OF vm assms(3) pk] and inv = env_alloc_inv [OF assms]
  have m: "mem ?s = mem (new_space e p s)" by (simp add: alloc_state_def)
  have id: "env_id (envs ?s e) = env_generation (env_id (envs s e)) OR of_nat e" by (simp add: alloc_id)
  have pos: "0 < sint (env_id (envs ?s e))" "ENVX (env_id (envs ?s e)) = e"
    unfolding id by (simp_all only: new_id_positive [OF e] new_id_index [OF e])
  then have nz: "env_id (envs ?s e) \<noteq> 0" by auto
  have new: "envid2env (env_id (envs ?s e)) False ?s = Some (0, Some e)"
    using nz pos by (simp add: envid2env_def alloc_status)
  have old: "envid2env (env_id (envs s e)) c ?s = Some (- E_BAD_ENV, None)"
    if "env_id (envs s e) \<noteq> 0" "ENVX (env_id (envs s e)) = e"
    using that new_id_fresh [OF e] by (simp add: envid2env_def id)
  have run: "env_alloc u s = Some (0, Some e, ?s)"
    using env_alloc_ok [OF assms(2) vm_inv_free [OF vm] assms(3)] by (simp add: alloc_state_def)
  have "table ?s p i = None" if "i < 955" for i using ns(2) [OF that] table_mem [OF m] by simp
  moreover have "entry ?s d i j = entry s d i j" if "d \<in> dirs s" "i < 955" for d i j
    using ns(3) [of d i] that entry_mem [OF m] by (simp add: spaces_def)
  moreover have "mem ?s p i = (if has (mem s (kern_pgdir s) i) PTE_P then mem s (kern_pgdir s) i else 0)"
    if "955 \<le> i \<and> i < 1024 \<and> i \<noteq> 957" for i using that new_space_mem [OF pk, of i e] m by simp
  ultimately show ?thesis using run inv pos new old by blast
qed

theorem env_alloc_correct_witness:
  "\<exists>s'. env_alloc 0 env_demo = Some (0, Some 0, s') \<and> kinv s' \<and> dirs s' = {300} \<and>
    envid2env (env_id (envs s' 0)) False s' = Some (0, Some 0)"
  using env_alloc_correct [OF env_demo_inv env_demo_fields(6,4), of 0 False] by (auto simp: env_demo_dirs)

text \<open>C4: freeing an environment. Whatever its address space maps, \<open>env_free\<close> succeeds, keeps the
  kernel's invariant, puts the slot at the head of the free list, returns the page directory and
  every page table below \<open>UTOP\<close> to the page allocator, takes from every other page exactly the
  references the address space held, and changes no other address space; a processor that ran
  on the freed directory is moved to the kernel's.\<close>

theorem env_free_releases:
  assumes "kinv s" "e < NENV" "env_pgdir (envs s e) = Some d"
  shows "\<exists>s'. env_free e s = Some s' \<and> kinv s' \<and> dirs s' = dirs s - {d} \<and> free_envs s' = e # free_envs s \<and>
    insert d (tables {d} s) \<subseteq> set (free_pages s') \<and>
    (\<forall>d' \<in> dirs s'. \<forall>i < 955. \<forall>j. entry s' d' i j = entry s d' i j) \<and>
    (\<forall>q < npages s. q \<notin> insert d (tables {d} s) \<longrightarrow>
      unat (pp_ref (pages s' q)) = unat (pp_ref (pages s q)) - card (slots {d} s q)) \<and>
    (curenv s = Some e \<longrightarrow> cr3 s' = kern_pgdir s)"
proof -
  define s0 where "s0 = (if curenv s = Some e then lcr3 (kern_pgdir s) s else s)"
  have f: "npages s0 = npages s" "kern_pgdir s0 = kern_pgdir s" "pages s0 = pages s" "mem s0 = mem s"
    "page_free_list s0 = page_free_list s" "envs s0 = envs s" "env_free_list s0 = env_free_list s"
    by (simp_all add: s0_def)
  have g: "dirs s0 = dirs s" "free_envs s0 = free_envs s" "env_list_ok s0 = env_list_ok s" "slots_ok s0 = slots_ok s"
    by (simp_all add: dirs_def free_envs_def env_list_ok_def slots_ok_def env_next_def [abs_def] f)
  have "kern_ok s0 = kern_ok s"
    by (simp add: kern_ok_def g f table_mem [OF f(4)])
  moreover have "vm_inv (spaces s) s0 = vm_inv (spaces s) s" by (rule vm_inv_cong) (simp_all add: f)
  moreover have sp: "spaces s0 = spaces s" by (simp add: spaces_def f g)
  ultimately have k0: "kinv s0" using assms(1) by (simp add: kinv_def g)
  note vm = kinv_vm [OF k0]
  have d: "d \<in> spaces s0" "env_pgdir (envs s0 e) = Some d" using assms(2,3) f(6) by (auto simp: spaces_def dirs_def)
  obtain s1 where s1: "mfold (free_table d) [0..<955] s0 = Some s1" "dropped (spaces s0) d 955 s0 s1"
    using free_table_loop [OF vm d(1), of 955] by auto
  note D = droppedD [OF s1(2)] and r = release_inv [OF k0 assms(2) d(2) s1(2)]
  have dp: "d < npages s1" "pp_ref (pages s1 d) = 1" "npages s \<le> 2 ^ 20"
    using D(1) d(1) vm_inv_npages [OF kinv_vm [OF assms(1)]] by (auto simp: vm_inv_def)
  have df: "d \<notin> set (free_pages s1)" using vm_inv_free [OF D(1)] dp(2) by (auto simp: free_ok_def)
  have run: "env_free e s = Some (release e d s1)"
    using env_free_run [OF assms(3) _ dp(3) _ vm_inv_free [OF D(1)] df] dp(1) D(3) f(1) s1(1) by (simp add: s0_def)
  have "unat (pp_ref (pages (release e d s1) q)) = unat (pp_ref (pages s q)) - card (slots {d} s q)"
    if "q < npages s" "q \<notin> insert d (tables {d} s)" for q
    using dropped_ref [OF s1(2) vm d(1), of q] that f
    by (simp add: slots_mem [OF f(4)] tables_def table_mem [OF f(4)])
  moreover have "insert d (tables {d} s) \<subseteq> set (free_pages (release e d s1))"
    using D(8) r(5) table_mem [OF f(4)] by (auto simp: tables_def)
  moreover have "entry (release e d s1) d' i j = entry s d' i j" if "d' \<in> dirs s - {d}" "i < 955" for d' i j
    using D(5) [of d' i j] that g(1) entry_mem [OF f(4)] entry_mem [of "release e d s1" s1] by (simp add: spaces_def)
  moreover have "curenv s = Some e \<longrightarrow> cr3 (release e d s1) = kern_pgdir s"
    using D(2) by (simp add: vm_only_def s0_def)
  ultimately show ?thesis using run r(1,2,3) g by (intro exI [of _ "release e d s1"]) simp
qed

theorem env_free_releases_witness:
  "\<exists>s'. env_free 0 env_started = Some s' \<and> kinv s' \<and> dirs s' = {} \<and> 300 \<in> set (free_pages s')"
proof -
  note i = env_alloc_inv [OF env_demo_inv env_demo_fields(6,4)]
  have "env_pgdir (envs env_started 0) = Some 300" by (simp add: env_started_def alloc_pgdir)
  moreover have "kinv env_started" "dirs env_started = {300}" using i by (simp_all add: env_started_def env_demo_dirs)
  ultimately show ?thesis using env_free_releases [of env_started 0 300] by (auto simp: NENV_def)
qed

text \<open>C6: identifiers are unique handles. In a table that satisfies the invariant a nonzero identifier
  resolves to \<open>e\<close> exactly when \<open>e\<close> is a slot in use that carries it, and every other nonzero
  identifier is refused; with the permission check, only the caller and its children resolve.\<close>

theorem envid2env_handles:
  assumes "slots_ok s" "envid \<noteq> 0"
  shows "(envid2env envid False s = Some (0, Some e) \<longleftrightarrow>
        e < NENV \<and> env_status (envs s e) \<noteq> ENV_FREE \<and> env_id (envs s e) = envid) \<and>
     ((\<nexists>x. x < NENV \<and> env_status (envs s x) \<noteq> ENV_FREE \<and> env_id (envs s x) = envid) \<longrightarrow>
        envid2env envid chk s = Some (- E_BAD_ENV, None)) \<and>
     (curenv s = Some c \<longrightarrow> envid2env envid True s = Some (0, Some e) \<longrightarrow>
        e = c \<or> env_parent_id (envs s e) = env_id (envs s c))"
proof (intro conjI impI)
  have x: "ENVX (env_id (envs s x)) = x" if "x < NENV" "env_status (envs s x) \<noteq> ENV_FREE" for x
    using assms(1) that by (simp add: slots_ok_def)
  have l: "ENVX envid < NENV" by (simp add: NENV_def)
  show "envid2env envid False s = Some (0, Some e) \<longleftrightarrow>
      e < NENV \<and> env_status (envs s e) \<noteq> ENV_FREE \<and> env_id (envs s e) = envid"
    using assms(2) l x [of e] by (auto simp: envid2env_def Let_def)
  show "envid2env envid chk s = Some (- E_BAD_ENV, None)"
    if "\<nexists>x. x < NENV \<and> env_status (envs s x) \<noteq> ENV_FREE \<and> env_id (envs s x) = envid"
    using that assms(2) l by (auto simp: envid2env_def Let_def)
  show "e = c \<or> env_parent_id (envs s e) = env_id (envs s c)"
    if "curenv s = Some c" "envid2env envid True s = Some (0, Some e)"
    using that assms(2) by (auto simp: envid2env_def Let_def split: if_splits)
qed

theorem envid2env_handles_witness:
  "envid2env 0x1000 False env_started = Some (0, Some 0)"
proof -
  note i = env_alloc_inv [OF env_demo_inv env_demo_fields(6,4)]
  have z: "env_id (envs env_demo 0) = 0"
    by (simp add: env_demo_def env_init_id four_free_def zero_env_def)
  have "env_id (envs env_started 0) = 0x1000"
    by (simp add: env_started_def alloc_id z env_generation_def)
  moreover have "slots_ok env_started" using i by (simp add: env_started_def kinv_def)
  ultimately show ?thesis using envid2env_handles [where s = env_started and envid = "0x1000" and e = 0]
    by (simp add: env_started_def alloc_status NENV_def)
qed

end
