(* ===== verification/Sched.thy ===== *)
theory Sched
  imports Env_Free
begin

text \<open>
  The scheduler, \<^verbatim>\<open>kernel/sched.c\<close> (the least-run-time strategy that \<^verbatim>\<open>LRT_STRAT\<close> selects), with
  \<^verbatim>\<open>env_destroy\<close> of \<^verbatim>\<open>kernel/env.c\<close> and \<^verbatim>\<open>user_mem_assert\<close> of \<^verbatim>\<open>kernel/pmap.c\<close>, which end in
  it. The lemmas say which environment is resumed, that the kernel's invariant survives and
  the lock is released, and that no runnable environment waits forever.
\<close>

subsection \<open>Operations\<close>

definition lrt_pick :: "nat \<Rightarrow> nat option \<Rightarrow> kstate \<Rightarrow> nat option" where
  "lrt_pick i min_env s =
    (if env_status (envs s i) = ENV_RUNNABLE then
       (case min_env of
          Some m \<Rightarrow> Some (if env_runs (envs s i) < env_runs (envs s m) then i else m)
        | None \<Rightarrow> Some i)
     else min_env)"

fun lrt_loop :: "nat \<Rightarrow> nat \<Rightarrow> nat option \<Rightarrow> kstate \<Rightarrow> nat option" where
  "lrt_loop 0 i min_env s = min_env"
| "lrt_loop (Suc j) i min_env s = lrt_loop j ((i + 1) mod NENV) (lrt_pick i min_env s) s"

definition sched_halt :: "kstate \<Rightarrow> (ctl \<times> kstate) option" where
  "sched_halt s =
    (if list_all (\<lambda>i. env_status (envs s i) \<notin> {ENV_RUNNABLE, ENV_RUNNING, ENV_DYING}) [0..<NENV]
     then Some (Monitor, s)
     else do {
       let s = set_curenv None s;
       let s = lcr3 (kern_pgdir s) s;
       let s = s\<lparr>cpus := (cpus s)(cpunum s := (cpus s (cpunum s))\<lparr>cpu_status := CPU_HALTED\<rparr>)\<rparr>;
       s \<leftarrow> unlock_kernel s;
       Some (Halt, s)
     })"

definition sched_yield :: "kstate \<Rightarrow> (ctl \<times> kstate) option" where
  "sched_yield s =
    (let idle = curenv s;
         i = (case idle of Some c \<Rightarrow> (ENVX (env_id (envs s c)) + 1) mod NENV | None \<Rightarrow> 0)
     in case lrt_loop NENV i None s of
          Some e \<Rightarrow> env_run e s
        | None \<Rightarrow> (case idle of
                     Some c \<Rightarrow> if env_status (envs s c) = ENV_RUNNING then env_run c s else sched_halt s
                   | None \<Rightarrow> sched_halt s))"

definition env_destroy :: "nat \<Rightarrow> kstate \<Rightarrow> (ctl \<times> kstate) option" where
  "env_destroy e s =
    (if env_status (envs s e) = ENV_RUNNING \<and> curenv s \<noteq> Some e
     then Some (Ret 0, env_upd e (\<lambda>v. v\<lparr>env_status := ENV_DYING\<rparr>) s)
     else do {
       s \<leftarrow> env_free e s;
       if curenv s = Some e then sched_yield (set_curenv None s) else Some (Ret 0, s)
     })"

definition user_mem_assert :: "nat \<Rightarrow> u32 \<Rightarrow> u32 \<Rightarrow> u32 \<Rightarrow> kstate \<Rightarrow> (ctl \<times> kstate) option" where
  "user_mem_assert env va len perm s = do {
     (ret, s) \<leftarrow> user_mem_check env va len (perm OR PTE_U OR PTE_P) s;
     if ret < 0 then env_destroy env s else Some (Ret 0, s)
   }"

subsection \<open>What keeps the invariant\<close>

lemma kinv_cong:
  assumes "npages s' = npages s" "kern_pgdir s' = kern_pgdir s" "pages s' = pages s" "mem s' = mem s"
    "page_free_list s' = page_free_list s" "env_free_list s' = env_free_list s"
    and "\<And>e. env_pgdir (envs s' e) = env_pgdir (envs s e)" "\<And>e. env_link (envs s' e) = env_link (envs s e)"
    "\<And>e. env_id (envs s' e) = env_id (envs s e)"
    "\<And>e. (env_status (envs s' e) = ENV_FREE) = (env_status (envs s e) = ENV_FREE)"
  shows "kinv s' = kinv s"
proof -
  have d: "dirs s' = dirs s" by (simp add: dirs_def assms)
  have n: "env_next s' = env_next s" by (rule ext) (simp add: env_next_def assms)
  have "env_list_ok s' = env_list_ok s" by (simp add: env_list_ok_def free_envs_def n assms)
  moreover have "slots_ok s' = slots_ok s" by (simp add: slots_ok_def assms)
  moreover have "vm_inv (spaces s) s' = vm_inv (spaces s) s" by (rule vm_inv_cong) (simp_all add: assms)
  moreover have "kern_ok s' = kern_ok s" by (simp add: kern_ok_def d assms table_mem [OF assms(4)])
  moreover have "spaces s' = spaces s" by (simp add: spaces_def d assms)
  ultimately show ?thesis by (simp add: kinv_def)
qed

lemma unlock_ok:
  assumes "holding (cpunum s) (kernel_lock s)"
  shows "unlock_kernel s = Some (s\<lparr>kernel_lock := (kernel_lock s)\<lparr>locked := 0, lock_cpu := None\<rparr>\<rparr>)"
  using assms by (simp add: unlock_kernel_def spin_unlock_def xchg_locked_def)

definition lock_released :: "kstate \<Rightarrow> bool" where
  "lock_released s \<longleftrightarrow> locked (kernel_lock s) = 0 \<and> lock_cpu (kernel_lock s) = None"

text \<open>What \<open>env_run\<close> does with the statuses: the old current environment becomes runnable.\<close>

definition run_status :: "nat \<Rightarrow> kstate \<Rightarrow> nat \<Rightarrow> env_status" where
  "run_status e s x =
    (if x = e then ENV_RUNNING
     else if curenv s = Some x \<and> env_status (envs s x) = ENV_RUNNING then ENV_RUNNABLE
     else env_status (envs s x))"

lemma env_run_ok:
  assumes "kinv s" "e < NENV" "env_status (envs s e) \<noteq> ENV_FREE" "holding (cpunum s) (kernel_lock s)"
  shows "\<exists>s'. env_run e s = Some (Resume e, s') \<and> kinv s' \<and> lock_released s' \<and> curenv s' = Some e \<and>
    cpunum s' = cpunum s \<and> Some (cr3 s') = env_pgdir (envs s e) \<and>
    (\<forall>x. env_status (envs s' x) = run_status e s x) \<and>
    (\<forall>x. env_runs (envs s' x) = (if x = e then env_runs (envs s x) + 1 else env_runs (envs s x))) \<and>
    (\<forall>x. env_tf (envs s' x) = env_tf (envs s x)) \<and> (\<forall>x. env_id (envs s' x) = env_id (envs s x))"
proof -
  obtain d where d: "env_pgdir (envs s e) = Some d" using kinv_slots [OF assms(1)] assms(2,3) by (auto simp: slots_ok_def)
  define s1 where "s1 = (case curenv s of
      Some c \<Rightarrow> if env_status (envs s c) = ENV_RUNNING then env_upd c (\<lambda>v. v\<lparr>env_status := ENV_RUNNABLE\<rparr>) s else s
    | None \<Rightarrow> s)"
  define s2 where "s2 = lcr3 d (env_upd e (\<lambda>v. v\<lparr>env_status := ENV_RUNNING, env_runs := env_runs v + 1\<rparr>) (set_curenv (Some e) s1))"
  define s3 where "s3 = env_upd e (\<lambda>v. v\<lparr>env_cpunum := cpunum s2\<rparr>)
    (s2\<lparr>kernel_lock := (kernel_lock s2)\<lparr>locked := 0, lock_cpu := None\<rparr>\<rparr>)"
  have f1: "npages s1 = npages s" "kern_pgdir s1 = kern_pgdir s" "pages s1 = pages s" "mem s1 = mem s"
    "page_free_list s1 = page_free_list s" "env_free_list s1 = env_free_list s" "cpunum s1 = cpunum s"
    "kernel_lock s1 = kernel_lock s" "cpus s1 = cpus s"
    by (simp_all add: s1_def split: option.split)
  have e1: "env_pgdir (envs s1 x) = env_pgdir (envs s x)" "env_link (envs s1 x) = env_link (envs s x)"
    "env_id (envs s1 x) = env_id (envs s x)" "env_runs (envs s1 x) = env_runs (envs s x)" "env_tf (envs s1 x) = env_tf (envs s x)"
    "env_status (envs s1 x) = (if curenv s = Some x \<and> env_status (envs s x) = ENV_RUNNING then ENV_RUNNABLE else env_status (envs s x))"
    for x by (simp_all add: s1_def split: option.split)
  have hold: "holding (cpunum s2) (kernel_lock s2)" using assms(4) f1 by (simp add: s2_def)
  have "env_run e s = Some (Resume e, s3)"
    using unlock_ok [OF hold] d e1(1) [of e]
    by (simp add: env_run_def Let_def flip: s1_def) (simp add: s3_def s2_def)
  moreover have "kinv s3 = kinv s"
    by (rule kinv_cong) (use assms(3) in \<open>simp_all add: s3_def s2_def f1 e1\<close>)
  ultimately show ?thesis using assms(1) d f1
    by (intro exI [of _ s3]) (simp add: s3_def s2_def e1 lock_released_def run_status_def curenv_def)
qed

subsection \<open>The choice\<close>

lemma lrt_pick_from: "lrt_pick i m s = Some e \<Longrightarrow> m = Some e \<or> e = i \<and> env_status (envs s i) = ENV_RUNNABLE"
  by (auto simp: lrt_pick_def split: if_splits option.splits)

lemma lrt_pick_min: "\<exists>e. lrt_pick i (Some m) s = Some e \<and> env_runs (envs s e) \<le> env_runs (envs s m)"
  by (auto simp: lrt_pick_def)

lemma lrt_pick_here:
  "env_status (envs s i) = ENV_RUNNABLE \<Longrightarrow> \<exists>e. lrt_pick i m s = Some e \<and> env_runs (envs s e) \<le> env_runs (envs s i)"
  by (auto simp: lrt_pick_def split: option.split)

lemma lrt_loop_runnable:
  assumes "i < NENV" "\<forall>m. min_env = Some m \<longrightarrow> m < NENV \<and> env_status (envs s m) = ENV_RUNNABLE"
    and "lrt_loop j i min_env s = Some e"
  shows "e < NENV \<and> env_status (envs s e) = ENV_RUNNABLE"
  using assms
proof (induction j arbitrary: i min_env)
  case (Suc j)
  have "(i + 1) mod NENV < NENV" by (simp add: NENV_def)
  moreover have "\<forall>m. lrt_pick i min_env s = Some m \<longrightarrow> m < NENV \<and> env_status (envs s m) = ENV_RUNNABLE"
    using lrt_pick_from [of i min_env s] Suc.prems(1,2) by blast
  moreover have "lrt_loop j ((i + 1) mod NENV) (lrt_pick i min_env s) s = Some e" using Suc.prems(3) by simp
  ultimately show ?case by (rule Suc.IH)
qed simp

lemma lrt_loop_min:
  "\<exists>e. lrt_loop j i (Some m) s = Some e \<and> env_runs (envs s e) \<le> env_runs (envs s m)"
proof (induction j arbitrary: i m)
  case (Suc j)
  obtain k where k: "lrt_pick i (Some m) s = Some k" "env_runs (envs s k) \<le> env_runs (envs s m)"
    using lrt_pick_min by blast
  then show ?case using Suc [of "(i + 1) mod NENV" k] by (metis lrt_loop.simps(2) order.trans)
qed simp

lemma lrt_loop_visit:
  assumes "i < NENV" "k < j" "env_status (envs s ((i + k) mod NENV)) = ENV_RUNNABLE"
  shows "\<exists>e. lrt_loop j i m s = Some e \<and> env_runs (envs s e) \<le> env_runs (envs s ((i + k) mod NENV))"
  using assms
proof (induction j arbitrary: i k m)
  case (Suc j)
  show ?case
  proof (cases k)
    case 0
    then have r: "env_status (envs s i) = ENV_RUNNABLE" "(i + k) mod NENV = i" using Suc.prems by simp_all
    obtain y where y: "lrt_pick i m s = Some y" "env_runs (envs s y) \<le> env_runs (envs s i)"
      using lrt_pick_here [OF r(1)] by blast
    then show ?thesis using lrt_loop_min [of j "(i + 1) mod NENV" y s] r(2) by (metis lrt_loop.simps(2) order.trans)
  next
    case (Suc k')
    have eq: "((i + 1) mod NENV + k') mod NENV = (i + k) mod NENV" using Suc by (simp add: mod_add_left_eq)
    have "(i + 1) mod NENV < NENV" "k' < j" using Suc.prems(2) Suc by (simp_all add: NENV_def)
    then show ?thesis
      using Suc.IH [of "(i + 1) mod NENV" k' "lrt_pick i m s"] Suc.prems(3) unfolding eq by simp
  qed
qed simp

lemma lrt_choice:
  assumes "i < NENV" "x < NENV" "env_status (envs s x) = ENV_RUNNABLE"
  shows "\<exists>e. lrt_loop NENV i None s = Some e \<and> e < NENV \<and> env_status (envs s e) = ENV_RUNNABLE \<and>
    env_runs (envs s e) \<le> env_runs (envs s x)"
proof -
  define k where "k = (x + NENV - i) mod NENV"
  have k: "k < NENV" "(i + k) mod NENV = x" using assms(1,2) by (auto simp: k_def NENV_def mod_if split: if_splits)
  then obtain e where "lrt_loop NENV i None s = Some e" "env_runs (envs s e) \<le> env_runs (envs s x)"
    using lrt_loop_visit [OF assms(1) k(1), of s None] assms(3) by auto
  then show ?thesis using lrt_loop_runnable [OF assms(1), of None s NENV e] by auto
qed

lemma lrt_none:
  assumes "\<forall>x < NENV. env_status (envs s x) \<noteq> ENV_RUNNABLE" "i < NENV"
  shows "lrt_loop j i None s = None"
  using assms(2)
proof (induction j arbitrary: i)
  case (Suc j)
  have "(i + 1) mod NENV < NENV" by (simp add: NENV_def)
  then show ?case using Suc assms(1) by (simp add: lrt_pick_def)
qed simp

lemma sched_start: "(case c of Some c \<Rightarrow> (ENVX (env_id (envs s c)) + 1) mod NENV | None \<Rightarrow> 0) < NENV"
  by (simp add: NENV_def split: option.split)

lemma sched_yield_runs:
  assumes "kinv s" "holding (cpunum s) (kernel_lock s)" "x < NENV" "env_status (envs s x) = ENV_RUNNABLE"
  shows "\<exists>e s'. sched_yield s = Some (Resume e, s') \<and> env_run e s = Some (Resume e, s') \<and> e < NENV \<and>
    env_status (envs s e) = ENV_RUNNABLE \<and> (\<forall>y < NENV. env_status (envs s y) = ENV_RUNNABLE \<longrightarrow>
      env_runs (envs s e) \<le> env_runs (envs s y))"
proof -
  let ?i = "case curenv s of Some c \<Rightarrow> (ENVX (env_id (envs s c)) + 1) mod NENV | None \<Rightarrow> 0"
  obtain e where e: "lrt_loop NENV ?i None s = Some e" "e < NENV" "env_status (envs s e) = ENV_RUNNABLE"
    using lrt_choice [OF sched_start assms(3,4)] by blast
  have least: "env_runs (envs s e) \<le> env_runs (envs s y)" if "y < NENV" "env_status (envs s y) = ENV_RUNNABLE" for y
    using lrt_choice [OF sched_start [of s "curenv s"] that] e(1) by auto
  have "env_status (envs s e) \<noteq> ENV_FREE" using e(3) by simp
  then obtain s' where "env_run e s = Some (Resume e, s')" using env_run_ok [OF assms(1) e(2) _ assms(2)] by blast
  then show ?thesis using e least by (simp add: sched_yield_def)
qed

subsection \<open>Waiting for a turn\<close>

text \<open>A turn: a processor enters the kernel from the current environment and gives up the rest of its
  slice. \<open>resumes_within n e\<close> says that \<open>e\<close> gets the processor in one of the next \<open>n\<close> turns.\<close>

definition turn :: "kstate \<Rightarrow> (ctl \<times> kstate) option" where
  "turn s = do { s \<leftarrow> lock_kernel s; sched_yield s }"

fun resumes_within :: "nat \<Rightarrow> nat \<Rightarrow> kstate \<Rightarrow> bool" where
  "resumes_within 0 e s = False"
| "resumes_within (Suc n) e s =
    (case turn s of Some (Resume x, s') \<Rightarrow> x = e \<or> resumes_within n e s' | _ \<Rightarrow> False)"

text \<open>How many turns others can still take before the run count of \<open>e\<close> is the least.\<close>

definition slack :: "nat \<Rightarrow> kstate \<Rightarrow> nat" where
  "slack e s = (\<Sum>x < NENV. Suc (unat (env_runs (envs s e))) - unat (env_runs (envs s x)))"

lemma lock_ok:
  assumes "lock_released s"
  shows "\<exists>s'. lock_kernel s = Some s' \<and> holding (cpunum s') (kernel_lock s') \<and> kinv s' = kinv s \<and> envs s' = envs s \<and>
    curenv s' = curenv s \<and> cpunum s' = cpunum s"
proof -
  let ?s = "s\<lparr>kernel_lock := (kernel_lock s)\<lparr>locked := 1, lock_cpu := Some (cpunum s)\<rparr>\<rparr>"
  have "lock_kernel s = Some ?s"
    using assms by (simp add: lock_kernel_def spin_lock_def lock_released_def holding_def xchg_locked_def)
  moreover have "kinv ?s = kinv s" by (rule kinv_cong) simp_all
  ultimately show ?thesis by (intro exI [of _ ?s]) (simp add: holding_def curenv_def)
qed

lemma turn_ok:
  assumes "kinv s" "lock_released s" "e < NENV" "env_status (envs s e) = ENV_RUNNABLE"
  shows "\<exists>x s'. turn s = Some (Resume x, s') \<and> x < NENV \<and> kinv s' \<and> lock_released s' \<and>
    env_runs (envs s x) \<le> env_runs (envs s e) \<and>
    (\<forall>y. env_runs (envs s' y) = (if y = x then env_runs (envs s y) + 1 else env_runs (envs s y))) \<and>
    (x \<noteq> e \<longrightarrow> env_status (envs s' e) = ENV_RUNNABLE)"
proof -
  obtain s1 where s1: "lock_kernel s = Some s1" "holding (cpunum s1) (kernel_lock s1)" "kinv s1" "envs s1 = envs s"
    "curenv s1 = curenv s" using lock_ok [OF assms(2)] assms(1) by auto
  obtain x s' where y: "sched_yield s1 = Some (Resume x, s')" "env_run x s1 = Some (Resume x, s')" "x < NENV"
    "env_status (envs s1 x) = ENV_RUNNABLE" "env_runs (envs s1 x) \<le> env_runs (envs s1 e)"
    using sched_yield_runs [OF s1(3,2) assms(3)] assms(3,4) s1(4) by auto
  have "env_status (envs s1 x) \<noteq> ENV_FREE" using y(4) by simp
  from env_run_ok [OF s1(3) y(3) this s1(2)] y(2)
  have r: "kinv s'" "lock_released s'" "\<forall>z. env_status (envs s' z) = run_status x s1 z"
    "\<forall>z. env_runs (envs s' z) = (if z = x then env_runs (envs s1 z) + 1 else env_runs (envs s1 z))" by auto
  have "x \<noteq> e \<longrightarrow> env_status (envs s' e) = ENV_RUNNABLE" using r(3) assms(4) s1(4) by (simp add: run_status_def)
  then show ?thesis using s1 y r by (simp add: turn_def)
qed

lemma slack_step:
  assumes "x < NENV" "x \<noteq> e" "env_runs (envs s x) \<le> env_runs (envs s e)" "unat (env_runs (envs s e)) < 2 ^ 32 - 1"
    and "\<forall>y. env_runs (envs s' y) = (if y = x then env_runs (envs s y) + 1 else env_runs (envs s y))"
  shows "Suc (slack e s') = slack e s"
proof -
  let ?g = "\<lambda>s y. Suc (unat (env_runs (envs s e))) - unat (env_runs (envs s y))"
  have le: "unat (env_runs (envs s x)) \<le> unat (env_runs (envs s e))" using assms(3) by (simp add: word_le_nat_alt)
  then have u: "unat (env_runs (envs s x) + 1) = Suc (unat (env_runs (envs s x)))"
    using assms(4) by (subst unat_add_no_wrap) simp_all
  have split: "slack e t = ?g t x + (\<Sum>y \<in> {..<NENV} - {x}. ?g t y)" for t
    unfolding slack_def by (rule sum.remove) (use assms(1) in simp_all)
  have "(\<Sum>y \<in> {..<NENV} - {x}. ?g s' y) = (\<Sum>y \<in> {..<NENV} - {x}. ?g s y)"
    by (rule sum.cong) (use assms(2,5) in auto)
  moreover have "Suc (?g s' x) = ?g s x" using assms(2,5) le u by simp
  ultimately show ?thesis by (simp add: split)
qed

lemma sched_waits:
  assumes "kinv s" "lock_released s" "e < NENV" "env_status (envs s e) = ENV_RUNNABLE"
    "unat (env_runs (envs s e)) < 2 ^ 32 - 1" "slack e s \<le> n"
  shows "resumes_within n e s"
  using assms
proof (induction n arbitrary: s)
  case 0
  have "Suc (unat (env_runs (envs s e))) - unat (env_runs (envs s e)) \<le> slack e s"
    unfolding slack_def by (rule member_le_sum) (use 0 in auto)
  then show ?case using 0 by simp
next
  case (Suc n)
  obtain x s' where t: "turn s = Some (Resume x, s')" "x < NENV" "kinv s'" "lock_released s'"
    "env_runs (envs s x) \<le> env_runs (envs s e)"
    "\<forall>y. env_runs (envs s' y) = (if y = x then env_runs (envs s y) + 1 else env_runs (envs s y))"
    "x \<noteq> e \<longrightarrow> env_status (envs s' e) = ENV_RUNNABLE"
    using turn_ok [OF Suc.prems(1-4)] by blast
  show ?case
  proof (cases "x = e")
    case False
    have "slack e s' \<le> n" using slack_step [OF t(2) False t(5) Suc.prems(5) t(6)] Suc.prems(6) by simp
    then have "resumes_within n e s'"
      using Suc.IH [of s'] t(3,4,6,7) Suc.prems(3,5) False by simp
    then show ?thesis using t(1) by simp
  qed (simp add: t(1))
qed

subsection \<open>Properties\<close>

text \<open>The demonstration state: one environment, created and runnable, on a processor that holds the
  kernel lock or has just released it.\<close>

definition sched_demo :: kstate where
  "sched_demo = env_started\<lparr>kernel_lock := \<lparr>locked = 1, lock_cpu = Some (cpunum env_started)\<rparr>\<rparr>"

lemma started_inv: "kinv env_started" and started_status: "env_status (envs env_started 0) = ENV_RUNNABLE"
  and started_runs: "env_runs (envs env_started 0) = 0" and started_pgdir: "env_pgdir (envs env_started 0) = Some 300"
  using env_alloc_inv(1) [OF env_demo_inv env_demo_fields(6,4)]
  by (simp_all add: env_started_def alloc_status alloc_pgdir)
    (simp add: alloc_state_def start_env_def)

lemma sched_demo_inv: "kinv sched_demo" "holding (cpunum sched_demo) (kernel_lock sched_demo)"
  "envs sched_demo = envs env_started"
proof -
  have "kinv sched_demo = kinv env_started" by (rule kinv_cong) (simp_all add: sched_demo_def)
  then show "kinv sched_demo" using started_inv by simp
qed (simp_all add: sched_demo_def holding_def)



text \<open>C17: no runnable environment starves while the others only give up their slices: it is resumed
  within as many turns as the run counts leave for the others to catch up.\<close>

theorem sched_no_starvation:
  assumes "kinv s" "lock_released s" "e < NENV" "env_status (envs s e) = ENV_RUNNABLE"
    "unat (env_runs (envs s e)) < 2 ^ 32 - 1"
  shows "resumes_within (slack e s) e s"
  by (rule sched_waits [OF assms order_refl])

theorem sched_no_starvation_witness:
  "resumes_within (slack 0 (env_started\<lparr>kernel_lock := \<lparr>locked = 0, lock_cpu = None\<rparr>\<rparr>)) 0
     (env_started\<lparr>kernel_lock := \<lparr>locked = 0, lock_cpu = None\<rparr>\<rparr>)"
proof (rule sched_no_starvation)
  let ?s = "env_started\<lparr>kernel_lock := \<lparr>locked = 0, lock_cpu = None\<rparr>\<rparr>"
  have "kinv ?s = kinv env_started" by (rule kinv_cong) simp_all
  then show "kinv ?s" using started_inv by simp
qed (simp_all add: lock_released_def NENV_def started_status started_runs)



end
