(* ===== verification/Console.thy ===== *)
theory Console
  imports Prelude
begin

text \<open>
  The console driver, \<^verbatim>\<open>kernel/console.c\<close>: keyboard decoding, the circular input buffer, and the
  text display. The ports of the devices are queues of the bytes the devices deliver and lists
  of the bytes written to them; every array access of the driver is checked, so that \<open>None\<close>
  is an access outside the array.
\<close>

subsection \<open>State\<close>

text \<open>
  \<open>kbd_port\<close> holds the frames of the keyboard controller (status and data byte), \<open>com_port\<close>
  those of the serial line (line status and received byte). An empty queue is a status byte
  with no bit set.
\<close>

record console =
  cons_buf :: "nat \<Rightarrow> u8"
  cons_rpos :: u32
  cons_wpos :: u32
  shift :: u32
  serial_exists :: bool
  kbd_port :: "(u8 \<times> u8) list"
  com_port :: "(u8 \<times> u8) list"
  com_out :: "u8 list"
  lpt_out :: "u8 list"
  crt_buf :: "nat \<Rightarrow> u16"
  crt_pos :: u16
  reboots :: nat

abbreviation (input) CONSBUFSIZE :: u32 where "CONSBUFSIZE \<equiv> 512"
abbreviation (input) CRT_COLS :: u16 where "CRT_COLS \<equiv> 80"
abbreviation (input) CRT_SIZE :: u16 where "CRT_SIZE \<equiv> 2000"

subsection \<open>Serial line\<close>

definition serial_proc_data :: "console \<Rightarrow> int \<times> console" where
  "serial_proc_data s =
    (case com_port s of
       [] \<Rightarrow> (- 1, s)
     | (lsr, rx) # q \<Rightarrow> if lsr AND 0x01 = 0 then (- 1, s) else (uint rx, s\<lparr>com_port := q\<rparr>))"

text \<open>The wait for the transmitter is bounded, so a byte is always written.\<close>

definition serial_putc :: "u32 \<Rightarrow> console \<Rightarrow> console" where
  "serial_putc c s = s\<lparr>com_out := com_out s @ [ucast c]\<rparr>"

definition lpt_putc :: "u32 \<Rightarrow> console \<Rightarrow> console" where
  "lpt_putc c s = s\<lparr>lpt_out := lpt_out s @ [ucast c]\<rparr>"

subsection \<open>Keyboard\<close>

definition chars :: "string \<Rightarrow> u8 list" where
  "chars = map of_char"

definition shiftcode :: "u8 \<Rightarrow> u8" where
  "shiftcode k =
    (if k = 0x1D then 2 else if k = 0x2A then 1 else if k = 0x36 then 1 else if k = 0x38 then 4
     else if k = 0x9D then 2 else if k = 0xB8 then 4 else 0)"

definition togglecode :: "u8 \<Rightarrow> u8" where
  "togglecode k = (if k = 0x3A then 8 else if k = 0x45 then 16 else if k = 0x46 then 32 else 0)"

definition lookup_map :: "u8 list \<Rightarrow> (u8 \<times> u8) list \<Rightarrow> u8 \<Rightarrow> u8" where
  "lookup_map row ext k =
    (if unat k < length row then row ! unat k else case map_of ext k of None \<Rightarrow> 0 | Some c \<Rightarrow> c)"

definition ext_keys :: "(u8 \<times> u8) list" where
  "ext_keys = [(0xC7, 0xE0), (0x9C, 10), (0xB5, 0x2F), (0xC8, 0xE2), (0xC9, 0xE6), (0xCB, 0xE4),
     (0xCD, 0xE5), (0xCF, 0xE1), (0xD0, 0xE3), (0xD1, 0xE7), (0xD2, 0xE8), (0xD3, 0xE9)]"

definition normalmap :: "u8 \<Rightarrow> u8" where
  "normalmap = lookup_map
    ([0, 0x1B] @ chars ''1234567890-='' @ [8, 9] @ chars ''qwertyuiop[]'' @ [10, 0] @
     chars ''asdfghjkl;'' @ [0x27, 0x60, 0, 0x5C] @ chars ''zxcvbnm,./'' @ [0] @ chars ''*'' @ [0] @ chars '' '' @
     replicate 13 0 @ chars ''789-456+1230.'' @ replicate 4 0)
    ext_keys"

definition shiftmap :: "u8 \<Rightarrow> u8" where
  "shiftmap = lookup_map
    ([0, 0x1B] @ chars ''!@#$%^&*()_+'' @ [8, 9] @ chars ''QWERTYUIOP{}'' @ [10, 0] @
     chars ''ASDFGHJKL:'' @ [0x22, 0x7E, 0, 0x7C] @ chars ''ZXCVBNM<>?'' @ [0] @ chars ''*'' @ [0] @ chars '' '' @
     replicate 13 0 @ chars ''789-456+1230.'' @ replicate 4 0)
    ext_keys"

text \<open>\<open>ctrl\<close> is the macro \<^verbatim>\<open>C(x)\<close>.\<close>

definition ctrl :: "u8 list \<Rightarrow> u8 list" where
  "ctrl = map (\<lambda>x. x - 0x40)"

definition ctlmap :: "u8 \<Rightarrow> u8" where
  "ctlmap = lookup_map
    (replicate 16 0 @ ctrl (chars ''QWERTYUIOP'') @ [0, 0, 13, 0] @ ctrl (chars ''ASDFGHJKL'') @
     replicate 4 0 @ ctrl (0x5C # chars ''ZXCVBNM'') @ [0, 0] @ ctrl (chars ''/'') @ [0, 0])
    [(0x97, 0xE0), (0xB5, 0x2F - 0x40), (0xC8, 0xE2), (0xC9, 0xE6), (0xCB, 0xE4), (0xCD, 0xE5),
     (0xCF, 0xE1), (0xD0, 0xE3), (0xD1, 0xE7), (0xD2, 0xE8), (0xD3, 0xE9)]"

definition charcode :: "u32 \<Rightarrow> u8 \<Rightarrow> u8" where
  "charcode i = (if i = 0 then normalmap else if i = 1 then shiftmap else ctlmap)"

definition caps :: "u32 \<Rightarrow> u8 \<Rightarrow> u8" where
  "caps sh c =
    (if sh AND 8 = 0 then c
     else if 0x61 \<le> c \<and> c \<le> 0x7A then c - 0x20
     else if 0x41 \<le> c \<and> c \<le> 0x5A then c + 0x20 else c)"

text \<open>One data byte, with the shift state: the character (0 for none), the new state, and whether
  the key combination asks for a reboot.\<close>

definition kbd_byte :: "u8 \<Rightarrow> u32 \<Rightarrow> u8 \<times> u32 \<times> bool" where
  "kbd_byte data sh =
    (if data = 0xE0 then (0, sh OR 0x40, False)
     else if data AND 0x80 \<noteq> 0 then
       (let data = (if sh AND 0x40 \<noteq> 0 then data else data AND 0x7F)
        in (0, sh AND NOT (ucast (shiftcode data) OR 0x40), False))
     else
       (let data = (if sh AND 0x40 \<noteq> 0 then data OR 0x80 else data);
            sh = (if sh AND 0x40 \<noteq> 0 then sh AND NOT 0x40 else sh);
            sh = sh OR ucast (shiftcode data);
            sh = sh XOR ucast (togglecode data);
            c = caps sh (charcode (sh AND 3) data)
        in (c, sh, NOT sh AND 6 = 0 \<and> c = 0xE9)))"

definition kbd_proc_data :: "console \<Rightarrow> int \<times> console" where
  "kbd_proc_data s =
    (case kbd_port s of
       [] \<Rightarrow> (- 1, s)
     | (stat, data) # q \<Rightarrow>
         if stat AND 0x01 = 0 then (- 1, s)
         else if stat AND 0x20 \<noteq> 0 then (- 1, s)
         else let (c, sh, reboot) = kbd_byte data (shift s)
              in (uint c, s\<lparr>kbd_port := q, shift := sh, reboots := (if reboot then reboots s + 1 else reboots s)\<rparr>))"

subsection \<open>Input buffer\<close>

definition cons_store :: "int \<Rightarrow> console \<Rightarrow> console option" where
  "cons_store c s = do {
     _ \<leftarrow> guard (unat (cons_wpos s) < 512);
     let w = cons_wpos s + 1;
     Some (s\<lparr>cons_buf := (cons_buf s)(unat (cons_wpos s) := word_of_int c),
             cons_wpos := (if w = CONSBUFSIZE then 0 else w)\<rparr>)
   }"

partial_function (option) cons_intr :: "(console \<Rightarrow> int \<times> console) \<Rightarrow> console \<Rightarrow> console option" where
  "cons_intr proc s =
    (let (c, s) = proc s in
     if c = - 1 then Some s
     else if c = 0 then cons_intr proc s
     else cons_store c s \<bind> cons_intr proc)"

definition serial_intr :: "console \<Rightarrow> console option" where
  "serial_intr s = (if serial_exists s then cons_intr serial_proc_data s else Some s)"

definition kbd_intr :: "console \<Rightarrow> console option" where
  "kbd_intr s = cons_intr kbd_proc_data s"

definition cons_take_next :: "console \<Rightarrow> (u8 \<times> console) option" where
  "cons_take_next s =
    (if cons_rpos s \<noteq> cons_wpos s then do {
       _ \<leftarrow> guard (unat (cons_rpos s) < 512);
       let c = cons_buf s (unat (cons_rpos s));
       let r = cons_rpos s + 1;
       Some (c, s\<lparr>cons_rpos := (if r = CONSBUFSIZE then 0 else r)\<rparr>)
     }
     else Some (0, s))"

definition cons_getc :: "console \<Rightarrow> (u8 \<times> console) option" where
  "cons_getc s = do {
     s \<leftarrow> serial_intr s;
     s \<leftarrow> kbd_intr s;
     cons_take_next s
   }"

subsection \<open>Display\<close>

definition crt_write :: "u16 \<Rightarrow> u16 \<Rightarrow> console \<Rightarrow> console option" where
  "crt_write p v s = (if p < CRT_SIZE then Some (s\<lparr>crt_buf := (crt_buf s)(unat p := v)\<rparr>) else None)"

definition crt_scroll :: "console \<Rightarrow> console" where
  "crt_scroll s =
    (if crt_pos s \<ge> CRT_SIZE
     then s\<lparr>crt_buf := (\<lambda>i. if i < 1920 then crt_buf s (i + 80) else if i < 2000 then 0x0720 else crt_buf s i),
            crt_pos := crt_pos s - CRT_COLS\<rparr>
     else s)"

text \<open>\<open>cga_print\<close> is \<^verbatim>\<open>cga_putc\<close> on every character but the tabulator, \<open>cga_space\<close> the call
  \<^verbatim>\<open>cons_putc(' ')\<close> that the tabulator makes five times.\<close>

definition cga_switch :: "u32 \<Rightarrow> console \<Rightarrow> console option" where
  "cga_switch c s =
    (let k = c AND 0xFF in
     if k = 8 then
       if crt_pos s > 0
       then crt_write (crt_pos s - 1) (ucast ((c AND NOT 0xFF) OR 0x20)) (s\<lparr>crt_pos := crt_pos s - 1\<rparr>)
       else Some s
     else if k = 10 then
       let p = crt_pos s + CRT_COLS in Some (s\<lparr>crt_pos := p - p mod CRT_COLS\<rparr>)
     else if k = 13 then Some (s\<lparr>crt_pos := crt_pos s - crt_pos s mod CRT_COLS\<rparr>)
     else crt_write (crt_pos s) (ucast c) (s\<lparr>crt_pos := crt_pos s + 1\<rparr>))"

definition cga_print :: "u32 \<Rightarrow> console \<Rightarrow> console option" where
  "cga_print c s = do {
     s \<leftarrow> cga_switch (if c AND NOT 0xFF = 0 then c OR 0x0700 else c) s;
     Some (crt_scroll s)
   }"

definition cga_space :: "console \<Rightarrow> console option" where
  "cga_space s = cga_print 0x20 (lpt_putc 0x20 (serial_putc 0x20 s))"

definition cga_putc :: "u32 \<Rightarrow> console \<Rightarrow> console option" where
  "cga_putc c s =
    (if c AND 0xFF = 9 then do {
       s \<leftarrow> mfold (\<lambda>_. cga_space) [0..<5] s;
       Some (crt_scroll s)
     }
     else cga_print c s)"

definition cons_putc :: "u32 \<Rightarrow> console \<Rightarrow> console option" where
  "cons_putc c s = cga_putc c (lpt_putc c (serial_putc c s))"

subsection \<open>The input buffer is a queue\<close>

definition pending :: "console \<Rightarrow> u8 list" where
  "pending s = map (\<lambda>k. cons_buf s ((unat (cons_rpos s) + k) mod 512))
     [0..<(unat (cons_wpos s) + 512 - unat (cons_rpos s)) mod 512]"

definition cons_ok :: "console \<Rightarrow> bool" where
  "cons_ok s \<longleftrightarrow> unat (cons_rpos s) < 512 \<and> unat (cons_wpos s) < 512"

lemma pos_step:
  "unat p < 512 \<Longrightarrow> unat (if p + 1 = (512 :: u32) then 0 else p + 1) = (unat p + 1) mod 512"
proof -
  assume p: "unat p < 512"
  then have "unat (p + 1) = unat p + 1" by (subst unat_add_no_wrap) simp_all
  with p show ?thesis by (auto simp: word_unat_eq_iff mod_Suc)
qed

lemma pending_length: "length (pending s) = (unat (cons_wpos s) + 512 - unat (cons_rpos s)) mod 512"
  by (simp add: pending_def)

lemma pending_Nil: "cons_ok s \<Longrightarrow> pending s = [] \<Longrightarrow> cons_rpos s = cons_wpos s"
  using pending_length [of s] by (auto simp: cons_ok_def word_unat_eq_iff mod_if split: if_splits)

lemma cons_store_ok:
  assumes "cons_ok s" "length (pending s) < 511"
  shows "\<exists>s'. cons_store c s = Some s' \<and> cons_ok s' \<and> pending s' = pending s @ [word_of_int c] \<and>
    s' = s\<lparr>cons_buf := cons_buf s', cons_wpos := cons_wpos s'\<rparr>"
proof -
  let ?r = "unat (cons_rpos s)" and ?w = "unat (cons_wpos s)"
  let ?n = "(?w + 512 - ?r) mod 512"
  define s' where "s' = s\<lparr>cons_buf := (cons_buf s)(?w := word_of_int c),
    cons_wpos := (if cons_wpos s + 1 = CONSBUFSIZE then 0 else cons_wpos s + 1)\<rparr>"
  have b: "?r < 512" "?w < 512" using assms(1) by (simp_all add: cons_ok_def)
  have w: "unat (cons_wpos s') = (?w + 1) mod 512" using pos_step [OF b(2)] by (simp add: s'_def)
  have rp: "cons_rpos s' = cons_rpos s" and cb: "cons_buf s' = (cons_buf s)(?w := word_of_int c)"
    by (simp_all add: s'_def)
  have n: "?n < 511" using assms(2) by (simp add: pending_length)
  have n1: "((?w + 1) mod 512 + 512 - ?r) mod 512 = Suc ?n" using n b by (auto simp: mod_if split: if_splits)
  have last: "(?r + ?n) mod 512 = ?w" using b by (auto simp: mod_if split: if_splits)
  have other: "(?r + k) mod 512 \<noteq> ?w" if "k < ?n" for k using b that n by (auto simp: mod_if split: if_splits)
  have "pending s' = pending s @ [word_of_int c]"
    unfolding pending_def w rp cb n1 using last other by simp
  moreover have "cons_ok s'" using b w by (simp add: cons_ok_def) (simp add: s'_def)
  moreover have "cons_store c s = Some s'" using b by (simp add: cons_store_def s'_def)
  ultimately show ?thesis by (intro exI [of _ s']) (simp add: s'_def)
qed

lemma cons_take:
  assumes "cons_ok s" "pending s = c # cs"
  shows "cons_rpos s \<noteq> cons_wpos s" "cons_buf s (unat (cons_rpos s)) = c"
    "cons_ok (s\<lparr>cons_rpos := (if cons_rpos s + 1 = CONSBUFSIZE then 0 else cons_rpos s + 1)\<rparr>)"
    "pending (s\<lparr>cons_rpos := (if cons_rpos s + 1 = CONSBUFSIZE then 0 else cons_rpos s + 1)\<rparr>) = cs"
proof -
  let ?r = "unat (cons_rpos s)" and ?w = "unat (cons_wpos s)"
  let ?n = "(?w + 512 - ?r) mod 512"
  let ?s = "s\<lparr>cons_rpos := (if cons_rpos s + 1 = CONSBUFSIZE then 0 else cons_rpos s + 1)\<rparr>"
  have b: "?r < 512" "?w < 512" using assms(1) by (simp_all add: cons_ok_def)
  have r: "unat (cons_rpos ?s) = (?r + 1) mod 512" using pos_step [OF b(1)] by simp
  have len: "?n = Suc (length cs)" using assms(2) pending_length [of s] by simp
  then show "cons_rpos s \<noteq> cons_wpos s" by auto
  have hd: "[0..<?n] = 0 # map Suc [0..<length cs]" using len by (simp add: upt_conv_Cons map_Suc_upt del: upt_Suc)
  have p: "pending s = cons_buf s ?r # map (\<lambda>k. cons_buf s ((?r + Suc k) mod 512)) [0..<length cs]"
    unfolding pending_def hd using b by simp
  then show "cons_buf s ?r = c" using assms(2) by simp
  show "cons_ok ?s" using b r by (simp add: cons_ok_def)
  have n1: "(?w + 512 - (?r + 1) mod 512) mod 512 = length cs" using len b by (auto simp: mod_if split: if_splits)
  have "((?r + 1) mod 512 + k) mod 512 = (?r + Suc k) mod 512" for k by (simp add: mod_add_left_eq)
  then have "pending ?s = map (\<lambda>k. cons_buf s ((?r + Suc k) mod 512)) [0..<length cs]"
    unfolding pending_def r using n1 by simp
  then show "pending ?s = cs" using p assms(2) by simp
qed

text \<open>What the devices have to deliver: the characters that a queue of frames decodes to.\<close>

fun kbd_stream :: "u32 \<Rightarrow> (u8 \<times> u8) list \<Rightarrow> u8 list" where
  "kbd_stream sh [] = []"
| "kbd_stream sh ((stat, data) # q) =
    (if stat AND 0x01 = 0 \<or> stat AND 0x20 \<noteq> 0 then []
     else let (c, sh, reboot) = kbd_byte data sh in if c = 0 then kbd_stream sh q else c # kbd_stream sh q)"

fun com_stream :: "(u8 \<times> u8) list \<Rightarrow> u8 list" where
  "com_stream [] = []"
| "com_stream ((lsr, rx) # q) =
    (if lsr AND 0x01 = 0 then [] else if rx = 0 then com_stream q else rx # com_stream q)"

lemma uint_not_m1 [simp]: "uint (c :: u8) \<noteq> - 1" "uint c = 0 \<longleftrightarrow> c = 0"
proof -
  have "0 \<le> uint c" by simp
  then show "uint c \<noteq> - 1" by linarith
qed (simp add: uint_0_iff)

lemma cons_store_fields:
  assumes "cons_store c s = Some s'"
  shows "cons_rpos s' = cons_rpos s" "kbd_port s' = kbd_port s" "com_port s' = com_port s" "shift s' = shift s"
    "serial_exists s' = serial_exists s"
  using assms by (auto simp: cons_store_def Let_def)

lemma cons_store_total:
  assumes "unat (cons_wpos s) < 512"
  shows "\<exists>s'. cons_store c s = Some s' \<and> unat (cons_wpos s') < 512"
  using pos_step [OF assms] assms by (simp add: cons_store_def Let_def)

lemma kbd_step:
  "kbd_port s = (st, d) # q \<Longrightarrow> st AND 0x01 \<noteq> 0 \<Longrightarrow> st AND 0x20 = 0 \<Longrightarrow> kbd_byte d (shift s) = (c, sh, rb) \<Longrightarrow>
    \<exists>s1. kbd_proc_data s = (uint c, s1) \<and> kbd_port s1 = q \<and> shift s1 = sh \<and> pending s1 = pending s \<and>
      cons_ok s1 = cons_ok s \<and> cons_wpos s1 = cons_wpos s \<and> com_port s1 = com_port s \<and> serial_exists s1 = serial_exists s"
  by (auto simp: kbd_proc_data_def pending_def cons_ok_def)

lemma kbd_stop:
  "kbd_port s = [] \<or> (\<exists>st d q. kbd_port s = (st, d) # q \<and> (st AND 0x01 = 0 \<or> st AND 0x20 \<noteq> 0)) \<Longrightarrow>
    kbd_intr s = Some s"
  unfolding kbd_intr_def by (subst cons_intr.simps) (auto simp: kbd_proc_data_def)

lemma intr_step:
  "proc s = (uint c, s1) \<Longrightarrow> cons_intr proc s = (if c = 0 then cons_intr proc s1 else cons_store (uint c) s1 \<bind> cons_intr proc)"
  for c :: u8
  by (subst cons_intr.simps) simp

lemma kbd_intr_queue:
  assumes "cons_ok s" "length (pending s) + length (kbd_stream (shift s) (kbd_port s)) < 512"
  shows "\<exists>s'. kbd_intr s = Some s' \<and> cons_ok s' \<and> pending s' = pending s @ kbd_stream (shift s) (kbd_port s)"
  using assms
proof (induction "kbd_port s" arbitrary: s)
  case Nil
  then show ?case using kbd_stop [of s] by (simp flip: Nil(1))
next
  case (Cons x q)
  obtain st d where x: "x = (st, d)" by force
  show ?case
  proof (cases "st AND 0x01 = 0 \<or> st AND 0x20 \<noteq> 0")
    case True
    then show ?thesis using kbd_stop [of s] Cons.prems Cons.hyps(2) [symmetric] x by auto
  next
    case False
    obtain c sh rb where kb: "kbd_byte d (shift s) = (c, sh, rb)" by (metis prod_cases3)
    have port: "kbd_port s = (st, d) # q" using Cons.hyps(2) x by simp
    obtain s1 where s1: "kbd_proc_data s = (uint c, s1)" "kbd_port s1 = q" "shift s1 = sh"
      "pending s1 = pending s" "cons_ok s1 = cons_ok s"
      using kbd_step [OF port _ _ kb] False by auto
    note st = intr_step [of kbd_proc_data, OF s1(1)]
    show ?thesis
    proof (cases "c = 0")
      case True
      then show ?thesis
        using Cons.hyps(1) [of s1] Cons.prems s1 False kb st by (simp add: port kbd_intr_def)
    next
      case c: False
      have str: "kbd_stream (shift s) (kbd_port s) = c # kbd_stream sh q" using False kb c by (simp add: port)
      then have "length (pending s1) < 511" using Cons.prems s1 by simp
      then obtain s2 where s2: "cons_store (uint c) s1 = Some s2" "cons_ok s2" "pending s2 = pending s1 @ [c]"
        using cons_store_ok [of s1 "uint c"] Cons.prems(1) s1(5) by auto
      then show ?thesis
        using Cons.hyps(1) [of s2] Cons.prems s1 cons_store_fields [OF s2(1)] st c str by (simp add: kbd_intr_def)
    qed
  qed
qed

lemma com_step:
  "com_port s = (l, c) # q \<Longrightarrow> l AND 0x01 \<noteq> 0 \<Longrightarrow>
    \<exists>s1. serial_proc_data s = (uint c, s1) \<and> com_port s1 = q \<and> pending s1 = pending s \<and> cons_ok s1 = cons_ok s \<and>
      cons_wpos s1 = cons_wpos s \<and> kbd_port s1 = kbd_port s \<and> shift s1 = shift s"
  by (auto simp: serial_proc_data_def pending_def cons_ok_def)

lemma com_stop:
  "com_port s = [] \<or> (\<exists>l c q. com_port s = (l, c) # q \<and> l AND 0x01 = 0) \<Longrightarrow> cons_intr serial_proc_data s = Some s"
  by (subst cons_intr.simps) (auto simp: serial_proc_data_def)

lemma com_intr_queue:
  assumes "cons_ok s" "length (pending s) + length (com_stream (com_port s)) < 512"
  shows "\<exists>s'. cons_intr serial_proc_data s = Some s' \<and> cons_ok s' \<and> pending s' = pending s @ com_stream (com_port s) \<and>
    kbd_port s' = kbd_port s \<and> shift s' = shift s"
  using assms
proof (induction "com_port s" arbitrary: s)
  case Nil
  then show ?case using com_stop [of s] by (simp flip: Nil(1))
next
  case (Cons x q)
  obtain l c where x: "x = (l, c)" by force
  show ?case
  proof (cases "l AND 0x01 = 0")
    case True
    then show ?thesis using com_stop [of s] Cons.prems Cons.hyps(2) [symmetric] x by auto
  next
    case False
    have port: "com_port s = (l, c) # q" using Cons.hyps(2) x by simp
    obtain s1 where s1: "serial_proc_data s = (uint c, s1)" "com_port s1 = q" "pending s1 = pending s"
      "cons_ok s1 = cons_ok s" "kbd_port s1 = kbd_port s" "shift s1 = shift s"
      using com_step [OF port False] by auto
    note st = intr_step [of serial_proc_data, OF s1(1)]
    show ?thesis
    proof (cases "c = 0")
      case True
      then show ?thesis using Cons.hyps(1) [of s1] Cons.prems s1 False st by (simp add: port)
    next
      case c: False
      have str: "com_stream (com_port s) = c # com_stream q" using False c by (simp add: port)
      then have "length (pending s1) < 511" using Cons.prems s1 by simp
      then obtain s2 where s2: "cons_store (uint c) s1 = Some s2" "cons_ok s2" "pending s2 = pending s1 @ [c]"
        using cons_store_ok [of s1 "uint c"] Cons.prems(1) s1(4) by auto
      then show ?thesis
        using Cons.hyps(1) [of s2] Cons.prems s1 cons_store_fields [OF s2(1)] st c str by simp
    qed
  qed
qed

subsection \<open>The display stays in its buffer\<close>

lemma crt_scroll_bound: "crt_pos s \<le> 2000 \<Longrightarrow> crt_pos (crt_scroll s) < 2000"
  by (auto simp: crt_scroll_def word_le_nat_alt word_less_nat_alt unat_sub)

lemma crt_scroll_out [simp]: "com_out (crt_scroll s) = com_out s" "lpt_out (crt_scroll s) = lpt_out s"
  by (simp_all add: crt_scroll_def)

lemma newline_bound:
  assumes "p < (2000 :: u16)" shows "p + 80 - (p + 80) mod 80 \<le> 2000" "p - p mod 80 \<le> 2000"
proof -
  have n: "unat p < 2000" using assms by (simp add: word_less_nat_alt)
  then have u: "unat (p + 80) = unat p + 80" by (simp add: unat_word_ariths)
  have m: "(p + 80) mod 80 \<le> p + 80" "p mod 80 \<le> p"
    by (simp_all add: word_le_nat_alt unat_mod)
  have "unat (p + 80 - (p + 80) mod 80) = unat p + 80 - (unat p + 80) mod 80"
    using unat_sub [OF m(1)] u by (simp add: unat_mod)
  moreover have "\<dots> \<le> 2000"
  proof -
    have "(unat p + 80) div 80 < 26" using n by (simp add: div_less_iff_less_mult)
    then have "80 * ((unat p + 80) div 80) \<le> 2000" by simp
    then show ?thesis by (simp only: minus_mod_eq_mult_div)
  qed
  ultimately show "p + 80 - (p + 80) mod 80 \<le> 2000" by (simp add: word_le_nat_alt)
  have "unat (p - p mod 80) \<le> unat p" using unat_sub [OF m(2)] by simp
  then show "p - p mod 80 \<le> 2000" using n by (simp add: word_le_nat_alt)
qed

lemma cga_switch_bound:
  assumes "crt_pos s < 2000"
  shows "\<exists>s'. cga_switch c s = Some s' \<and> crt_pos s' \<le> 2000 \<and> com_out s' = com_out s \<and> lpt_out s' = lpt_out s"
proof -
  have n: "unat (crt_pos s) < 2000" using assms by (simp add: word_less_nat_alt)
  have inc: "crt_pos s + 1 \<le> 2000" using n by (simp add: word_le_nat_alt unat_word_ariths)
  have dec: "crt_pos s - 1 < 2000" if "crt_pos s \<noteq> 0"
    using n that by (simp add: word_less_nat_alt unat_minus_one)
  note nl = newline_bound [OF assms]
  consider "c AND 0xFF = 8" | "c AND 0xFF = 10" | "c AND 0xFF = 13" | "c AND 0xFF \<notin> {8, 10, 13}" by blast
  then show ?thesis
  proof cases
    case 1
    then show ?thesis using dec assms by (cases "crt_pos s = 0") (simp_all add: cga_switch_def crt_write_def word_gt_0)
  next
    case 2
    then show ?thesis using nl(1) by (simp add: cga_switch_def Let_def)
  next
    case 3
    then show ?thesis using nl(2) by (simp add: cga_switch_def)
  next
    case 4
    then show ?thesis using assms inc by (simp add: cga_switch_def crt_write_def)
  qed
qed

lemma cga_print_bound:
  assumes "crt_pos s < 2000"
  shows "\<exists>s'. cga_print c s = Some s' \<and> crt_pos s' < 2000 \<and> com_out s' = com_out s \<and> lpt_out s' = lpt_out s"
proof -
  obtain s1 where "cga_switch (if c AND NOT 0xFF = 0 then c OR 0x0700 else c) s = Some s1" "crt_pos s1 \<le> 2000"
    "com_out s1 = com_out s" "lpt_out s1 = lpt_out s" using cga_switch_bound [OF assms] by blast
  then show ?thesis using crt_scroll_bound [of s1] by (simp add: cga_print_def)
qed

lemma cga_space_bound:
  assumes "crt_pos s < 2000"
  shows "\<exists>s'. cga_space s = Some s' \<and> crt_pos s' < 2000 \<and> com_out s' = com_out s @ [0x20] \<and> lpt_out s' = lpt_out s @ [0x20]"
  using cga_print_bound [of "lpt_putc 0x20 (serial_putc 0x20 s)" "0x20"] assms
  by (auto simp: cga_space_def lpt_putc_def serial_putc_def)

lemma cga_tab_bound:
  assumes "crt_pos s < 2000"
  shows "\<exists>s'. mfold (\<lambda>_. cga_space) [0..<n] s = Some s' \<and> crt_pos s' < 2000 \<and>
    com_out s' = com_out s @ replicate n 0x20 \<and> lpt_out s' = lpt_out s @ replicate n 0x20"
proof (induction n)
  case (Suc n)
  then obtain s1 where s1: "mfold (\<lambda>_. cga_space) [0..<n] s = Some s1" "crt_pos s1 < 2000"
    "com_out s1 = com_out s @ replicate n 0x20" "lpt_out s1 = lpt_out s @ replicate n 0x20" by blast
  then show ?case using cga_space_bound [OF s1(2)] by (auto simp: mfold_append replicate_append_same)
qed (use assms in simp)

definition echo :: "u32 \<Rightarrow> u8 list" where
  "echo c = (if c AND 0xFF = 9 then ucast c # replicate 5 0x20 else [ucast c])"

lemma cons_putc_bound:
  assumes "crt_pos s < 2000"
  shows "\<exists>s'. cons_putc c s = Some s' \<and> crt_pos s' < 2000 \<and> com_out s' = com_out s @ echo c \<and> lpt_out s' = lpt_out s @ echo c"
proof -
  let ?s = "lpt_putc c (serial_putc c s)"
  have o: "crt_pos ?s < 2000" "com_out ?s = com_out s @ [ucast c]" "lpt_out ?s = lpt_out s @ [ucast c]"
    using assms by (simp_all add: lpt_putc_def serial_putc_def)
  show ?thesis
  proof (cases "c AND 0xFF = 9")
    case True
    obtain s1 where "mfold (\<lambda>_. cga_space) [0..<5] ?s = Some s1" "crt_pos s1 < 2000"
      "com_out s1 = com_out ?s @ replicate 5 0x20" "lpt_out s1 = lpt_out ?s @ replicate 5 0x20"
      using cga_tab_bound [OF o(1), of 5] by blast
    then show ?thesis using True crt_scroll_bound [of s1] o
      by (auto simp: cons_putc_def cga_putc_def echo_def simp del: upt_rec_numeral)
  next
    case False
    then show ?thesis using cga_print_bound [OF o(1), of c] o by (auto simp: cons_putc_def cga_putc_def echo_def)
  qed
qed

subsection \<open>Properties\<close>

definition cons_demo :: console where
  "cons_demo = \<lparr>cons_buf = (\<lambda>_. 0), cons_rpos = 0, cons_wpos = 0, shift = 0, serial_exists = True,
     kbd_port = [(1, 0x2A), (1, 0x1E), (1, 0xAA), (1, 0x30)], com_port = [(1, 0x78)], com_out = [], lpt_out = [],
     crt_buf = (\<lambda>_. 0), crt_pos = 1999, reboots = 0\<rparr>"

text \<open>C19: console input is first in, first out. With room in the buffer, \<open>cons_getc\<close> moves every
  character the serial line and then the keyboard have to deliver behind those that wait, and
  returns the oldest one, or 0 when there is none.\<close>

theorem console_input_fifo:
  assumes "cons_ok s" "serial_exists s"
    and "length (pending s) + length (com_stream (com_port s)) + length (kbd_stream (shift s) (kbd_port s)) < 512"
  shows "\<exists>c s'. cons_getc s = Some (c, s') \<and> cons_ok s' \<and>
    (case pending s @ com_stream (com_port s) @ kbd_stream (shift s) (kbd_port s) of
       [] \<Rightarrow> c = 0 \<and> pending s' = [] | d # ds \<Rightarrow> c = d \<and> pending s' = ds)"
proof -
  obtain s1 where s1: "serial_intr s = Some s1" "cons_ok s1" "pending s1 = pending s @ com_stream (com_port s)"
    "kbd_port s1 = kbd_port s" "shift s1 = shift s"
    using com_intr_queue [OF assms(1)] assms(2,3) by (auto simp: serial_intr_def)
  obtain s2 where s2: "kbd_intr s1 = Some s2" "cons_ok s2"
    and p2: "pending s2 = pending s @ com_stream (com_port s) @ kbd_stream (shift s) (kbd_port s)"
    using kbd_intr_queue [OF s1(2)] assms(3) s1 by auto
  have run: "cons_getc s = cons_take_next s2" using s1(1) s2(1) by (simp add: cons_getc_def)
  have r: "unat (cons_rpos s2) < 512" using s2(2) by (simp add: cons_ok_def)
  show ?thesis
    unfolding run p2 [symmetric]
  proof (cases "pending s2")
    case Nil
    then show "\<exists>c s'. cons_take_next s2 = Some (c, s') \<and> cons_ok s' \<and>
        (case pending s2 of [] \<Rightarrow> c = 0 \<and> pending s' = [] | d # ds \<Rightarrow> c = d \<and> pending s' = ds)"
      using s2(2) pending_Nil [OF s2(2)] by (simp add: cons_take_next_def)
  next
    case (Cons d ds)
    note t = cons_take [OF s2(2) Cons]
    let ?s = "s2\<lparr>cons_rpos := (if cons_rpos s2 + 1 = CONSBUFSIZE then 0 else cons_rpos s2 + 1)\<rparr>"
    have "cons_take_next s2 = Some (d, ?s)" using t(1,2) r by (simp add: cons_take_next_def Let_def)
    then show "\<exists>c s'. cons_take_next s2 = Some (c, s') \<and> cons_ok s' \<and>
        (case pending s2 of [] \<Rightarrow> c = 0 \<and> pending s' = [] | d # ds \<Rightarrow> c = d \<and> pending s' = ds)"
      using t(3,4) Cons by (intro exI [of _ d] exI [of _ ?s]) (simp only: list.case simp_thms)
  qed
qed

theorem console_input_fifo_witness:
  "\<exists>c s'. cons_getc cons_demo = Some (c, s') \<and> c = 0x78 \<and> pending s' = [0x41, 0x62]"
proof -
  have "kbd_stream 0 [(1, 0x2A), (1, 0x1E), (1, 0xAA), (1, 0x30)] = [0x41, 0x62]" by code_simp
  then show ?thesis
    using console_input_fifo [of cons_demo] by (auto simp: cons_demo_def cons_ok_def pending_def)
qed

text \<open>C20: the interrupt handler always comes to an end and never leaves the buffer, whatever the
  keyboard delivers.\<close>

theorem kbd_intr_terminates:
  assumes "unat (cons_wpos s) < 512"
  shows "\<exists>s'. kbd_intr s = Some s' \<and> unat (cons_wpos s') < 512"
  using assms
proof (induction "kbd_port s" arbitrary: s)
  case Nil
  then show ?case using kbd_stop [of s] by simp
next
  case (Cons x q)
  obtain st d where x: "x = (st, d)" by force
  show ?case
  proof (cases "st AND 0x01 = 0 \<or> st AND 0x20 \<noteq> 0")
    case True
    then show ?thesis using kbd_stop [of s] Cons.prems Cons.hyps(2) [symmetric] x by auto
  next
    case False
    obtain c sh rb where kb: "kbd_byte d (shift s) = (c, sh, rb)" by (metis prod_cases3)
    have port: "kbd_port s = (st, d) # q" using Cons.hyps(2) x by simp
    obtain s1 where s1: "kbd_proc_data s = (uint c, s1)" "kbd_port s1 = q" "cons_wpos s1 = cons_wpos s"
      using kbd_step [OF port _ _ kb] False by auto
    note st = intr_step [of kbd_proc_data, OF s1(1)]
    obtain s2 where s2: "cons_store (uint c) s1 = Some s2" "unat (cons_wpos s2) < 512"
      using cons_store_total [of s1 "uint c"] Cons.prems s1(3) by auto
    show ?thesis
      using Cons.hyps(1) [of s1] Cons.hyps(1) [of s2] Cons.prems s1 s2 st cons_store_fields(2) [OF s2(1)]
      by (cases "c = 0") (simp_all add: kbd_intr_def)
  qed
qed

theorem kbd_intr_terminates_witness: "\<exists>s'. kbd_intr cons_demo = Some s' \<and> unat (cons_wpos s') < 512"
  using kbd_intr_terminates [of cons_demo] by (simp add: cons_demo_def)

text \<open>C22: the buffer does not notice that it is full: with 511 characters waiting, one more makes the
  positions meet, and all 512 are lost.\<close>

theorem console_overflow_loses_input:
  assumes "cons_ok s" "length (pending s) = 511"
  shows "\<exists>s'. cons_store c s = Some s' \<and> pending s' = []"
proof -
  have b: "unat (cons_rpos s) < 512" "unat (cons_wpos s) < 512" using assms(1) by (simp_all add: cons_ok_def)
  have "(unat (cons_wpos s) + 512 - unat (cons_rpos s)) mod 512 = 511"
    using assms(2) by (simp add: pending_length)
  then have "(unat (cons_wpos s) + 1) mod 512 = unat (cons_rpos s)" using b by (auto simp: mod_if split: if_splits)
  then show ?thesis using pos_step [OF b(2)] b by (simp add: cons_store_def Let_def pending_def)
qed

theorem console_overflow_loses_input_witness:
  "\<exists>s'. cons_store 0x61 (cons_demo\<lparr>cons_wpos := 511\<rparr>) = Some s' \<and> pending s' = []"
  using console_overflow_loses_input [of "cons_demo\<lparr>cons_wpos := 511\<rparr>" "0x61"]
  by (simp add: cons_demo_def cons_ok_def pending_length)

text \<open>C21: output never writes outside the text buffer: from a cursor on the screen, any sequence of
  characters is printed, the cursor stays on the screen, and the serial line gets the
  characters with each tabulator followed by five blanks.\<close>

theorem cons_putc_in_bounds:
  assumes "crt_pos s < 2000"
  shows "\<exists>s'. mfold cons_putc cs s = Some s' \<and> crt_pos s' < 2000 \<and> com_out s' = com_out s @ concat (map echo cs)"
  using assms
proof (induction cs arbitrary: s)
  case (Cons c cs)
  obtain s1 where s1: "cons_putc c s = Some s1" "crt_pos s1 < 2000" "com_out s1 = com_out s @ echo c"
    using cons_putc_bound [OF Cons.prems] by blast
  then show ?case using Cons.IH [OF s1(2)] by auto
qed simp

theorem cons_putc_in_bounds_witness:
  "\<exists>s'. mfold cons_putc [0x61, 9, 10] cons_demo = Some s' \<and> crt_pos s' < 2000 \<and>
    com_out s' = [0x61, 9, 0x20, 0x20, 0x20, 0x20, 0x20, 10]"
proof -
  have "concat (map echo [0x61, 9, 10]) = [0x61, 9, 0x20, 0x20, 0x20, 0x20, 0x20, 10]" by code_simp
  moreover have "crt_pos cons_demo < 2000" "com_out cons_demo = []" by (simp_all add: cons_demo_def)
  ultimately show ?thesis using cons_putc_in_bounds [of cons_demo "[0x61, 9, 10]"] by simp
qed

end
