(* ===== verification/Devices.thy ===== *)
theory Devices
  imports User_Mem
begin

text \<open>
  The clock, \<^verbatim>\<open>kernel/time.c\<close>, and the descriptor rings of the network card, \<^verbatim>\<open>kernel/e1000.c\<close>. The
  card itself is not modelled: it is what sets the \<open>DD\<close> (descriptor done) bits between two calls.
\<close>

abbreviation (input) "E_BUSY \<equiv> (16 :: int)"

subsection \<open>Clock\<close>

definition time_tick :: "u32 \<Rightarrow> u32 option" where
  "time_tick ticks = (let ticks = ticks + 1 in if push_bit 1 ticks < ticks then None else Some ticks)"

definition time_msec :: "u32 \<Rightarrow> u32" where
  "time_msec ticks = ticks * 10"

subsection \<open>Descriptor rings\<close>

record tx_desc =
  tx_addr :: u64
  tx_length :: u16
  tx_cso :: u8
  tx_cmd :: u8
  tx_status :: u8
  tx_css :: u8
  tx_special :: u16

record rx_desc =
  rx_addr :: u64
  rx_length :: u16
  rx_checksum :: u16
  rx_status :: u8
  rx_errors :: u8
  rx_special :: u16

record nic =
  tx_desc_table :: "nat \<Rightarrow> tx_desc"
  rx_desc_table :: "nat \<Rightarrow> rx_desc"
  e1000_tdt :: u32
  e1000_rdt :: u32

text \<open>
  What \<^verbatim>\<open>pci_e1000_attach\<close> puts into the rings: every transmit descriptor done, every receive
  descriptor with a page of its own, the buffer starting behind the length field of a packet.
\<close>

definition fresh_tx :: tx_desc where
  "fresh_tx = \<lparr>tx_addr = 0, tx_length = 0, tx_cso = 0, tx_cmd = 0, tx_status = 1, tx_css = 0, tx_special = 0\<rparr>"

definition attach_rx :: "nat \<Rightarrow> nic \<times> kstate \<Rightarrow> (nic \<times> kstate) option" where
  "attach_rx i ns = do {
     (p, s) \<leftarrow> page_alloc False (snd ns);
     pp \<leftarrow> p;
     let n = fst ns;
     Some (n\<lparr>rx_desc_table := (rx_desc_table n)(i := (rx_desc_table n i)\<lparr>rx_addr := ucast (page2pa pp + 4)\<rparr>)\<rparr>, s)
   }"

definition pci_e1000_attach :: "nic \<Rightarrow> kstate \<Rightarrow> (nic \<times> kstate) option" where
  "pci_e1000_attach n s = do {
     let n = n\<lparr>tx_desc_table := (\<lambda>i. if i < 64 then fresh_tx else tx_desc_table n i), e1000_tdt := 0\<rparr>;
     (n, s) \<leftarrow> mfold attach_rx [0..<128] (n, s);
     Some (n\<lparr>e1000_rdt := 127\<rparr>, s)
   }"

definition e1000_put_tx_desc :: "u32 \<Rightarrow> u32 \<Rightarrow> u8 \<Rightarrow> kstate \<Rightarrow> nic \<Rightarrow> (int \<times> nic) option" where
  "e1000_put_tx_desc addr len flag s n = do {
     let i = unat (e1000_tdt n);
     _ \<leftarrow> guard (i < 64);
     let td = tx_desc_table n i;
     if tx_status td AND 1 = 0 then Some (- E_BUSY, n)
     else do {
       r \<leftarrow> user_mem_phy_addr addr s;
       case r of
         None \<Rightarrow> Some (- E_INVAL, n)
       | Some pa \<Rightarrow>
           Some (0, n\<lparr>tx_desc_table := (tx_desc_table n)(i :=
                        td\<lparr>tx_addr := ucast pa, tx_length := ucast len, tx_cmd := flag OR 8\<rparr>),
                      e1000_tdt := (e1000_tdt n + 1) AND 63\<rparr>)
     }
   }"

text \<open>The bytes of physical memory behind a kernel address.\<close>

definition phys_bytes :: "kstate \<Rightarrow> u32 \<Rightarrow> nat \<Rightarrow> u8 list" where
  "phys_bytes s pa k = map (\<lambda>j. let a = pa + of_nat j
     in get_byte (mem s (unat (PGNUM a)) (unat (PGOFF a) div 4)) (unat (PGOFF a) mod 4)) [0..<k]"

definition e1000_get_rx_desc :: "u32 \<Rightarrow> u32 \<Rightarrow> kstate \<Rightarrow> nic \<Rightarrow> (int \<times> kstate \<times> nic) option" where
  "e1000_get_rx_desc addr len s n =
    (let index = (e1000_rdt n + 1) AND 127; rd = rx_desc_table n (unat index) in
     if rx_status rd AND 1 = 0 then Some (- E_EOF, s, n)
     else do {
       let len = min (ucast (rx_length rd)) len;
       _ \<leftarrow> kaddr (npages s) (ucast (rx_addr rd));
       s \<leftarrow> kwrite_bytes addr (phys_bytes s (ucast (rx_addr rd)) (unat len)) s;
       Some (sint len, s, n\<lparr>rx_desc_table := (rx_desc_table n)(unat index := rd\<lparr>rx_status := 0\<rparr>), e1000_rdt := index\<rparr>)
     })"

subsection \<open>Properties\<close>

lemma tdt_step: "unat t < 64 \<Longrightarrow> unat ((t + 1) AND 63 :: u32) = (unat t + 1) mod 64"
proof -
  assume t: "unat t < 64"
  then have "unat (t + 1) = unat t + 1" by (subst unat_add_no_wrap) simp_all
  moreover have "(63 :: u32) = mask 6" by (simp add: mask_eq_exp_minus_1)
  ultimately show ?thesis using mask_mod [of "t + 1" 6] by simp
qed

text \<open>The descriptors that a burst of \<open>k\<close> packets from \<open>addr\<close> leaves behind, when the card does
  nothing meanwhile.\<close>

fun put_burst :: "u32 list \<Rightarrow> u32 \<Rightarrow> u8 \<Rightarrow> kstate \<Rightarrow> nic \<Rightarrow> nic option" where
  "put_burst [] len flag s n = Some n"
| "put_burst (a # as) len flag s n = do {
     (r, n) \<leftarrow> e1000_put_tx_desc a len flag s n;
     _ \<leftarrow> guard (r = 0);
     put_burst as len flag s n
   }"

definition tx_ready :: "nic \<Rightarrow> bool" where
  "tx_ready n \<longleftrightarrow> unat (e1000_tdt n) < 64 \<and> (\<forall>i < 64. tx_status (tx_desc_table n i) AND 1 \<noteq> 0)"

lemma put_ready:
  assumes "tx_ready n" "user_mem_phy_addr a s = Some (Some pa)"
  shows "\<exists>n'. e1000_put_tx_desc a len flag s n = Some (0, n') \<and> tx_ready n' \<and>
    unat (e1000_tdt n') = (unat (e1000_tdt n) + 1) mod 64 \<and>
    (\<forall>i. i \<noteq> unat (e1000_tdt n) \<longrightarrow> tx_desc_table n' i = tx_desc_table n i) \<and>
    tx_addr (tx_desc_table n' (unat (e1000_tdt n))) = ucast pa"
proof -
  have t: "unat (e1000_tdt n) < 64" "tx_status (tx_desc_table n (unat (e1000_tdt n))) AND 1 \<noteq> 0"
    using assms(1) by (simp_all add: tx_ready_def)
  then show ?thesis using assms tdt_step [OF t(1)]
    by (auto simp: e1000_put_tx_desc_def tx_ready_def Let_def)
qed

lemma burst_ready:
  assumes "tx_ready n" "\<forall>a \<in> set as. \<exists>pa. user_mem_phy_addr a s = Some (Some pa)"
  shows "\<exists>n'. put_burst as len flag s n = Some n' \<and> tx_ready n' \<and>
    unat (e1000_tdt n') = (unat (e1000_tdt n) + length as) mod 64"
  using assms
proof (induction as arbitrary: n)
  case Nil
  then show ?case by (simp add: tx_ready_def)
next
  case (Cons a as)
  obtain pa where pa: "user_mem_phy_addr a s = Some (Some pa)" using Cons.prems(2) by auto
  obtain n1 where n1: "e1000_put_tx_desc a len flag s n = Some (0, n1)" "tx_ready n1"
    "unat (e1000_tdt n1) = (unat (e1000_tdt n) + 1) mod 64"
    using put_ready [OF Cons.prems(1) pa, of len flag] by blast
  then show ?case using Cons.IH [OF n1(2)] Cons.prems(2) by (auto simp: mod_add_left_eq)
qed

text \<open>C28: the driver never finds its transmit ring full. It accepts any number of packets although the
  card has sent none, so that after 64 of them the next one overwrites the descriptor of the
  first: the tail is back where it was and the call still succeeds.\<close>

theorem e1000_ring_never_full:
  assumes "tx_ready n" "length as = 64" "\<forall>a \<in> set (b # as). \<exists>pa. user_mem_phy_addr a s = Some (Some pa)"
  shows "\<exists>n' n'' pa. put_burst as len flag s n = Some n' \<and> e1000_tdt n' = e1000_tdt n \<and>
    e1000_put_tx_desc b len flag s n' = Some (0, n'') \<and> user_mem_phy_addr b s = Some (Some pa) \<and>
    tx_addr (tx_desc_table n'' (unat (e1000_tdt n))) = ucast pa"
proof -
  obtain n1 where n1: "put_burst as len flag s n = Some n1" "tx_ready n1"
    "unat (e1000_tdt n1) = (unat (e1000_tdt n) + 64) mod 64"
    using burst_ready [OF assms(1), of as s len flag] assms(2,3) by auto
  have t: "e1000_tdt n1 = e1000_tdt n" using n1(3) assms(1) by (simp add: tx_ready_def word_unat_eq_iff)
  obtain pa where pa: "user_mem_phy_addr b s = Some (Some pa)" using assms(3) by auto
  show ?thesis using n1(1) t put_ready [OF n1(2) pa, of len flag] pa by (auto simp: t)
qed

definition nic_demo :: nic where
  "nic_demo = \<lparr>tx_desc_table = (\<lambda>_. fresh_tx), rx_desc_table = (\<lambda>_. \<lparr>rx_addr = 0, rx_length = 0, rx_checksum = 0,
     rx_status = 0, rx_errors = 0, rx_special = 0\<rparr>), e1000_tdt = 0, e1000_rdt = 127\<rparr>"

lemma nic_demo_phys: "user_mem_phy_addr 0x800000 (set_curenv (Some 3) um_demo) = Some (Some (page2pa 290))"
proof -
  let ?s = "set_curenv (Some 3) um_demo"
  have "vm_inv {280} ?s" by (rule vm_inv_cong [THEN iffD2, OF _ _ _ _ vm_mapped_inv]) (simp_all add: um_demo_def)
  moreover have "entry ?s 280 (unat (PDX 0x800000)) (unat (PTX 0x800000)) = Some 0x122007"
    using vm_mapped_look entry_mem [of ?s vm_mapped] by (simp add: look_def um_demo_def)
  ultimately show ?thesis
    using page_lookup_entry [of "{280}" ?s 280 "0x800000"] demo_va(1)
    by (simp add: user_mem_phy_addr_def um_demo_def demo_pte(2) PGOFF_def)
qed

theorem e1000_ring_never_full_witness:
  "\<exists>n' n''. put_burst (replicate 64 0x800000) 100 1 (set_curenv (Some 3) um_demo) nic_demo = Some n' \<and>
    e1000_put_tx_desc 0x800000 100 1 (set_curenv (Some 3) um_demo) n' = Some (0, n'') \<and>
    tx_addr (tx_desc_table n'' 0) = ucast (page2pa 290)"
  using e1000_ring_never_full [of nic_demo "replicate 64 0x800000" "0x800000" "set_curenv (Some 3) um_demo" 100 1]
    nic_demo_phys by (auto simp: tx_ready_def nic_demo_def fresh_tx_def)

text \<open>C29: the millisecond clock runs backwards long before the overflow check stops the machine. At tick
  429496730, which no earlier tick prevents, the reading is 4 although the tick before it
  read 4294967290.\<close>

theorem time_msec_wraps:
  "time_tick 429496729 = Some 429496730 \<and> time_msec 429496729 = 4294967290 \<and> time_msec 429496730 = 4 \<and>
   (\<forall>t. unat t < 429496730 \<longrightarrow> unat (time_msec t) = 10 * unat t) \<and>
   (\<forall>t. unat t < 2 ^ 31 - 1 \<longrightarrow> time_tick t = Some (t + 1))"
proof (intro conjI allI impI)
  show "unat (time_msec t) = 10 * unat t" if "unat t < 429496730" for t
    using that by (simp add: time_msec_def unat_word_ariths)
  show "time_tick t = Some (t + 1)" if "unat t < 2 ^ 31 - 1" for t
  proof -
    have u: "unat (t + 1) = unat t + 1" using that by (subst unat_add_no_wrap) simp_all
    then have "unat (push_bit 1 (t + 1)) = 2 * (unat t + 1)"
      using that by (simp add: push_bit_eq_mult unat_word_ariths)
    then show ?thesis using u by (simp add: time_tick_def Let_def word_less_nat_alt)
  qed
qed (simp_all add: time_tick_def time_msec_def push_bit_eq_mult)

theorem time_msec_wraps_witness:
  "time_msec 429496729 = 4294967290 \<and> time_msec 429496730 = 4 \<and> unat (time_msec 100) = 1000 \<and>
   time_tick 2000000000 = Some 2000000001"
proof -
  have "unat (time_msec 100) = 10 * unat (100 :: u32)" "time_tick 2000000000 = Some (2000000000 + 1)"
    using time_msec_wraps by simp_all
  then show ?thesis using time_msec_wraps by simp
qed

end
