(* ===== verification/Syscall.thy ===== *)
theory Syscall
  imports Sched Console Devices
begin

text \<open>
  System calls, \<^verbatim>\<open>kernel/syscall.c\<close>, in the order of the source. A handler returns how it ends
  (\<open>ctl\<close>) and the state; the handlers that only touch the kernel's own state work on \<open>kstate\<close>,
  those that reach a device on \<open>machine\<close>. The text that \<^verbatim>\<open>sys_debug_info\<close> formats is not modelled:
  its handler is an argument of the dispatcher.
\<close>

record machine =
  ks :: kstate
  con :: console
  net :: nic
  ticks :: u32

text \<open>\<open>then_ret r f\<close> goes on with \<open>f\<close> when the first part returns, and ends where it ends otherwise.\<close>

definition then_ret :: "(ctl \<times> kstate) option \<Rightarrow> (kstate \<Rightarrow> (ctl \<times> kstate) option) \<Rightarrow> (ctl \<times> kstate) option" where
  "then_ret r f = do { (c, s) \<leftarrow> r; case c of Ret _ \<Rightarrow> f s | _ \<Rightarrow> Some (c, s) }"

definition on_ks :: "(kstate \<Rightarrow> (ctl \<times> kstate) option) \<Rightarrow> machine \<Rightarrow> (ctl \<times> machine) option" where
  "on_ks f m = do { (c, s) \<leftarrow> f (ks m); Some (c, m\<lparr>ks := s\<rparr>) }"

subsection \<open>Console and identity\<close>

text \<open>
  The characters that \<^verbatim>\<open>cprintf("%.*s", len, s)\<close> prints: up to \<open>len\<close> of them and none after the
  terminator; a length that is negative as an integer is no bound, and a null pointer prints as
  \<^verbatim>\<open>(null)\<close>.
\<close>

fun cputs_chars :: "kstate \<Rightarrow> u32 \<Rightarrow> nat \<Rightarrow> u8 list option" where
  "cputs_chars s va 0 = do { _ \<leftarrow> kread8 s va; Some [] }"
| "cputs_chars s va (Suc n) = do {
     b \<leftarrow> kread8 s va;
     if b = 0 then Some [] else do { bs \<leftarrow> cputs_chars s (va + 1) n; Some (b # bs) }
   }"

definition sys_cputs :: "u32 \<Rightarrow> u32 \<Rightarrow> machine \<Rightarrow> (ctl \<times> machine) option" where
  "sys_cputs str len m = do {
     c \<leftarrow> curenv (ks m);
     (r, s) \<leftarrow> user_mem_assert c str len 0 (ks m);
     let m = m\<lparr>ks := s\<rparr>;
     case r of
       Ret _ \<Rightarrow> do {
         bs \<leftarrow> (if str = 0 then Some (if sint len < 0 then chars ''(null)'' else take (unat len) (chars ''(null)''))
                else if sint len < 0 then kread_str s str else cputs_chars s str (unat len));
         con' \<leftarrow> mfold (\<lambda>b. cons_putc (scast b)) bs (con m);
         Some (Ret 0, m\<lparr>con := con'\<rparr>)
       }
     | _ \<Rightarrow> Some (r, m)
   }"

definition sys_cgetc :: "machine \<Rightarrow> (ctl \<times> machine) option" where
  "sys_cgetc m = do { (c, con') \<leftarrow> cons_getc (con m); Some (Ret (uint c), m\<lparr>con := con'\<rparr>) }"

definition sys_getenvid :: "kstate \<Rightarrow> (ctl \<times> kstate) option" where
  "sys_getenvid s = do { c \<leftarrow> curenv s; Some (Ret (sint (env_id (envs s c))), s) }"

subsection \<open>Environments\<close>

definition sys_env_destroy :: "u32 \<Rightarrow> kstate \<Rightarrow> (ctl \<times> kstate) option" where
  "sys_env_destroy envid s = do {
     (ret, env) \<leftarrow> envid2env envid True s;
     if ret < 0 then Some (Ret ret, s)
     else do { e \<leftarrow> env; then_ret (env_destroy e s) (\<lambda>s. Some (Ret 0, s)) }
   }"

definition sys_yield :: "kstate \<Rightarrow> (ctl \<times> kstate) option" where
  "sys_yield s = sched_yield s"

definition sys_exofork :: "kstate \<Rightarrow> (ctl \<times> kstate) option" where
  "sys_exofork s = do {
     c \<leftarrow> curenv s;
     (ret, env, s) \<leftarrow> env_alloc (env_id (envs s c)) s;
     if ret < 0 then Some (Ret ret, s)
     else do {
       e \<leftarrow> env;
       let cur = envs s c;
       let s = env_upd e (\<lambda>v. v\<lparr>env_tf := (env_tf cur)\<lparr>tf_regs := (tf_regs (env_tf cur))\<lparr>reg_eax := 0\<rparr>\<rparr>,
                 env_status := ENV_NOT_RUNNABLE, currentpath := currentpath cur, binaryname := []\<rparr>) s;
       Some (Ret (sint (env_id (envs s e))), s)
     }
   }"

definition sys_env_set_status :: "u32 \<Rightarrow> u32 \<Rightarrow> kstate \<Rightarrow> (ctl \<times> kstate) option" where
  "sys_env_set_status envid status s =
    (if status \<noteq> 4 \<and> status \<noteq> 2 then Some (Ret (- E_INVAL), s)
     else do {
       (ret, env) \<leftarrow> envid2env envid True s;
       if ret < 0 then Some (Ret (- E_BAD_ENV), s)
       else do {
         e \<leftarrow> env;
         Some (Ret 0, env_upd e (\<lambda>v. v\<lparr>env_status := (if status = 2 then ENV_RUNNABLE else ENV_NOT_RUNNABLE)\<rparr>) s)
       }
     })"

text \<open>\<^verbatim>\<open>tf_eip\<close> is at offset 48 and \<^verbatim>\<open>tf_esp\<close> at offset 60 of the 68 bytes of a trap frame.\<close>

definition sys_env_set_trapframe :: "u32 \<Rightarrow> u32 \<Rightarrow> kstate \<Rightarrow> (ctl \<times> kstate) option" where
  "sys_env_set_trapframe envid tf s = do {
     (ret, env) \<leftarrow> envid2env envid True s;
     if ret < 0 then Some (Ret ret, s)
     else do {
       c \<leftarrow> curenv s;
       then_ret (user_mem_assert c tf 68 PTE_W s) (\<lambda>s. do {
         e \<leftarrow> env;
         eip \<leftarrow> kread32 s (tf + 48);
         esp \<leftarrow> kread32 s (tf + 60);
         Some (Ret 0, env_upd e (\<lambda>v. v\<lparr>env_tf := (env_tf v)\<lparr>tf_eip := eip, tf_esp := esp,
           tf_eflags := (tf_eflags (env_tf v) OR 0x200) AND NOT 0x3000\<rparr>\<rparr>) s)
       })
     }
   }"

definition sys_env_set_pgfault_upcall :: "u32 \<Rightarrow> u32 \<Rightarrow> kstate \<Rightarrow> (ctl \<times> kstate) option" where
  "sys_env_set_pgfault_upcall envid upcall s = do {
     (ret, env) \<leftarrow> envid2env envid True s;
     if ret < 0 then Some (Ret (- E_BAD_ENV), s)
     else if upcall = 0 then Some (Ret (- E_INVAL), s)
     else do { e \<leftarrow> env; Some (Ret 0, env_upd e (\<lambda>v. v\<lparr>env_pgfault_upcall := upcall\<rparr>) s) }
   }"

subsection \<open>Memory\<close>

definition bad_va :: "u32 \<Rightarrow> bool" where
  "bad_va va \<longleftrightarrow> va mod PGSIZE \<noteq> 0 \<or> va \<ge> UTOP"

definition sys_page_alloc :: "u32 \<Rightarrow> u32 \<Rightarrow> u32 \<Rightarrow> kstate \<Rightarrow> (ctl \<times> kstate) option" where
  "sys_page_alloc envid va perm s = do {
     (ret, env) \<leftarrow> envid2env envid True s;
     if ret < 0 then Some (Ret (- E_BAD_ENV), s)
     else if bad_va va then Some (Ret (- E_INVAL), s)
     else do {
       (page, s) \<leftarrow> page_alloc True s;
       case page of
         None \<Rightarrow> Some (Ret (- E_NO_MEM), s)
       | Some pp \<Rightarrow> do {
           e \<leftarrow> env;
           pgdir \<leftarrow> env_pgdir (envs s e);
           (ret, s) \<leftarrow> page_insert pgdir (Some pp) va (perm OR PTE_U) s;
           if ret < 0 then do { s \<leftarrow> page_free pp s; Some (Ret ret, s) }
           else Some (Ret 0, s)
         }
     }
   }"

text \<open>The page that \<^verbatim>\<open>sys_page_map\<close> takes: page 0 for a null source, the page mapped there otherwise;
  \<open>None\<close> is the return of \<^verbatim>\<open>-E_INVAL\<close>.\<close>

definition page_map_source :: "nat \<Rightarrow> u32 \<Rightarrow> u32 \<Rightarrow> kstate \<Rightarrow> nat option option" where
  "page_map_source e src perm s =
    (if src = 0 then Some (if has perm PTE_W then None else Some 0)
     else do {
       pgdir \<leftarrow> env_pgdir (envs s e);
       r \<leftarrow> page_lookup pgdir src s;
       case r of
         None \<Rightarrow> Some None
       | Some (pp, t, j) \<Rightarrow> Some (if \<not> has (mem s t j) PTE_W \<and> has perm PTE_W then None else Some pp)
     })"

definition sys_page_map :: "u32 \<Rightarrow> u32 \<Rightarrow> u32 \<Rightarrow> u32 \<Rightarrow> u32 \<Rightarrow> kstate \<Rightarrow> (ctl \<times> kstate) option" where
  "sys_page_map srcenv_id src dstenv_id dst perm s =
    (if bad_va src then Some (Ret (- E_INVAL), s)
     else if bad_va dst then Some (Ret (- E_INVAL), s)
     else do {
       (r1, src_env) \<leftarrow> envid2env srcenv_id True s;
       if r1 < 0 then Some (Ret (- E_BAD_ENV), s)
       else do {
         (r2, dst_env) \<leftarrow> envid2env dstenv_id True s;
         if r2 < 0 then Some (Ret (- E_BAD_ENV), s)
         else do {
           se \<leftarrow> src_env;
           page \<leftarrow> page_map_source se src perm s;
           case page of
             None \<Rightarrow> Some (Ret (- E_INVAL), s)
           | Some pp \<Rightarrow> do {
               de \<leftarrow> dst_env;
               pgdir \<leftarrow> env_pgdir (envs s de);
               (ret, s) \<leftarrow> page_insert pgdir (Some pp) dst (perm OR PTE_U) s;
               Some (Ret (if ret < 0 then ret else 0), s)
             }
         }
       }
     })"

definition sys_page_unmap :: "u32 \<Rightarrow> u32 \<Rightarrow> kstate \<Rightarrow> (ctl \<times> kstate) option" where
  "sys_page_unmap envid va s = do {
     (ret, env) \<leftarrow> envid2env envid True s;
     if ret < 0 then Some (Ret (- E_BAD_ENV), s)
     else if bad_va va then Some (Ret (- E_INVAL), s)
     else do {
       e \<leftarrow> env;
       pgdir \<leftarrow> env_pgdir (envs s e);
       s \<leftarrow> page_remove pgdir va s;
       Some (Ret 0, s)
     }
   }"

subsection \<open>Messages\<close>

definition ipc_deliver :: "nat \<Rightarrow> u32 \<Rightarrow> u32 \<Rightarrow> u32 \<Rightarrow> kstate \<Rightarrow> kstate" where
  "ipc_deliver e value from perm s =
    env_upd e (\<lambda>v. v\<lparr>env_ipc_perm := perm, env_ipc_value := value, env_ipc_from := from, env_ipc_recving := False,
      env_status := ENV_RUNNABLE\<rparr>) s"

definition sys_ipc_try_send :: "u32 \<Rightarrow> u32 \<Rightarrow> u32 \<Rightarrow> u32 \<Rightarrow> kstate \<Rightarrow> (ctl \<times> kstate) option" where
  "sys_ipc_try_send envid value srcva perm s =
    (if bad_va srcva then Some (Ret (- E_INVAL), s)
     else do {
       (ret, env) \<leftarrow> envid2env envid False s;
       if ret < 0 then Some (Ret ret, s)
       else do {
         e \<leftarrow> env;
         if \<not> env_ipc_recving (envs s e) then Some (Ret (- E_IPC_NOT_RECV), s)
         else do {
           c \<leftarrow> curenv s;
           if env_ipc_dstva (envs s e) \<noteq> 0 \<and> srcva \<noteq> 0 then do {
             src_pgdir \<leftarrow> env_pgdir (envs s c);
             r \<leftarrow> page_lookup src_pgdir srcva s;
             case r of
               None \<Rightarrow> Some (Ret (- E_INVAL), s)
             | Some (pp, t, j) \<Rightarrow>
                 if \<not> has (mem s t j) PTE_W \<and> has perm PTE_W then Some (Ret (- E_INVAL), s)
                 else do {
                   pgdir \<leftarrow> env_pgdir (envs s e);
                   (ret, s) \<leftarrow> page_insert pgdir (Some pp) (env_ipc_dstva (envs s e)) (perm OR PTE_U) s;
                   if ret < 0 then Some (Ret ret, s)
                   else Some (Ret 0, ipc_deliver e value (env_id (envs s c)) (perm OR PTE_U OR PTE_P) s)
                 }
           }
           else Some (Ret 0, ipc_deliver e value (env_id (envs s c)) 0 s)
         }
       }
     })"

definition ipc_wait :: "nat \<Rightarrow> u32 \<Rightarrow> kstate \<Rightarrow> kstate" where
  "ipc_wait c dstva s =
    env_upd c (\<lambda>v. v\<lparr>env_ipc_recving := True, env_ipc_dstva := dstva,
      env_tf := (env_tf v)\<lparr>tf_regs := (tf_regs (env_tf v))\<lparr>reg_eax := 0\<rparr>\<rparr>, env_status := ENV_NOT_RUNNABLE\<rparr>) s"

definition sys_ipc_recv :: "u32 \<Rightarrow> kstate \<Rightarrow> (ctl \<times> kstate) option" where
  "sys_ipc_recv dstva s =
    (if bad_va dstva then Some (Ret (- E_INVAL), s)
     else do { c \<leftarrow> curenv s; sched_yield (ipc_wait c dstva s) })"

subsection \<open>Clock and network\<close>

definition sys_time_msec :: "machine \<Rightarrow> (ctl \<times> machine) option" where
  "sys_time_msec m = Some (Ret (sint (time_msec (ticks m))), m)"

lemma tx_step: "(len :: u32) \<noteq> 0 \<Longrightarrow> unat (len - min len 4092) < unat len"
proof -
  assume "len \<noteq> 0"
  then have "0 < unat (min len 4092)" by (simp add: min_def unat_gt_0)
  moreover have "unat (len - min len 4092) = unat len - unat (min len 4092)" by (rule unat_sub) simp
  moreover have "unat (min len 4092) \<le> unat len" by (simp add: word_le_nat_alt [symmetric])
  ultimately show ?thesis by simp
qed

text \<open>\<^verbatim>\<open>sched_yield\<close> does not return, so a full ring or a bad address ends the call inside the loop.\<close>

function tx_loop :: "u32 \<Rightarrow> u32 \<Rightarrow> machine \<Rightarrow> (ctl \<times> machine) option" where
  "tx_loop content len m =
    (if len = 0 then Some (Ret 0, m)
     else do {
       let k = min len (PGSIZE - 4);
       (r, n) \<leftarrow> e1000_put_tx_desc content k (if len - k = 0 then 1 else 0) (ks m) (net m);
       let m = m\<lparr>net := n\<rparr>;
       if r = 0 then tx_loop (content + k) (len - k) m else on_ks sys_yield m
     })"
  by pat_completeness auto

termination
  by (relation "measure (\<lambda>(content, len, m). unat len)") (auto intro: tx_step)

definition sys_tx_pkt :: "u32 \<Rightarrow> u32 \<Rightarrow> machine \<Rightarrow> (ctl \<times> machine) option" where
  "sys_tx_pkt content len m = do {
     c \<leftarrow> curenv (ks m);
     (r, s) \<leftarrow> user_mem_assert c content len PTE_U (ks m);
     case r of Ret _ \<Rightarrow> tx_loop content len (m\<lparr>ks := s\<rparr>) | _ \<Rightarrow> Some (r, m\<lparr>ks := s\<rparr>)
   }"

definition sys_rx_pkt :: "u32 \<Rightarrow> u32 \<Rightarrow> machine \<Rightarrow> (ctl \<times> machine) option" where
  "sys_rx_pkt content len m = do {
     c \<leftarrow> curenv (ks m);
     (r, s) \<leftarrow> user_mem_assert c content len (PTE_U OR PTE_W) (ks m);
     case r of
       Ret _ \<Rightarrow> do {
         (ret, s, n) \<leftarrow> e1000_get_rx_desc content len s (net m);
         Some (Ret ret, m\<lparr>ks := s, net := n\<rparr>)
       }
     | _ \<Rightarrow> Some (r, m\<lparr>ks := s\<rparr>)
   }"

subsection \<open>Names and areas\<close>

text \<open>Copying a string that does not fit its field overwrites what follows it; such a copy is \<open>None\<close>.\<close>

definition sys_chdir :: "u32 \<Rightarrow> kstate \<Rightarrow> (ctl \<times> kstate) option" where
  "sys_chdir path s = do {
     c \<leftarrow> curenv s;
     str \<leftarrow> kread_str s path;
     then_ret (user_mem_assert c path (of_nat (length str + 1)) PTE_U s) (\<lambda>s. do {
       _ \<leftarrow> guard (length str < 1024);
       Some (Ret 0, env_upd c (\<lambda>v. v\<lparr>currentpath := str\<rparr>) s)
     })
   }"

definition sys_add_vma :: "u32 \<Rightarrow> u32 \<Rightarrow> u32 \<Rightarrow> u32 \<Rightarrow> kstate \<Rightarrow> (ctl \<times> kstate) option" where
  "sys_add_vma envid va memsz perm s = do {
     (ret, e) \<leftarrow> envid2env envid True s;
     if ret \<noteq> 0 then Some (Ret ret, s)
     else let (r, s) = env_add_vma e va memsz (PTE_U OR perm) s in Some (Ret r, s)
   }"

definition sys_copy_vma :: "u32 \<Rightarrow> u32 \<Rightarrow> kstate \<Rightarrow> (ctl \<times> kstate) option" where
  "sys_copy_vma src_env dst_env s = do {
     (ret, src) \<leftarrow> envid2env src_env True s;
     if ret \<noteq> 0 then Some (Ret ret, s)
     else do {
       (ret, dst) \<leftarrow> envid2env dst_env True s;
       if ret \<noteq> 0 then Some (Ret ret, s)
       else do {
         se \<leftarrow> src;
         de \<leftarrow> dst;
         let n = vma_valid (envs s se);
         Some (Ret 0, env_upd de (\<lambda>v. v\<lparr>vma := (\<lambda>i. if i < n then vma (envs s se) i else vma v i), vma_valid := n\<rparr>) s)
       }
     }
   }"

definition sys_env_name :: "u32 \<Rightarrow> u32 \<Rightarrow> kstate \<Rightarrow> (ctl \<times> kstate) option" where
  "sys_env_name envid name s = do {
     (ret, env) \<leftarrow> envid2env envid True s;
     if ret \<noteq> 0 then Some (Ret ret, s)
     else do {
       c \<leftarrow> curenv s;
       str \<leftarrow> kread_str s name;
       then_ret (user_mem_assert c name (of_nat (length str + 1)) PTE_U s) (\<lambda>s. do {
         e \<leftarrow> env;
         _ \<leftarrow> guard (length str < 128);
         Some (Ret 0, env_upd e (\<lambda>v. v\<lparr>binaryname := str\<rparr>) s)
       })
     }
   }"

subsection \<open>Dispatch\<close>

type_synonym debug_info = "u32 \<Rightarrow> u32 \<Rightarrow> u32 \<Rightarrow> machine \<Rightarrow> (ctl \<times> machine) option"

definition syscall :: "debug_info \<Rightarrow> u32 \<Rightarrow> u32 \<Rightarrow> u32 \<Rightarrow> u32 \<Rightarrow> u32 \<Rightarrow> u32 \<Rightarrow> machine \<Rightarrow> (ctl \<times> machine) option" where
  "syscall sys_debug_info syscallno a1 a2 a3 a4 a5 m =
    (if syscallno = 0 then sys_cputs a1 a2 m
     else if syscallno = 1 then sys_cgetc m
     else if syscallno = 2 then on_ks sys_getenvid m
     else if syscallno = 3 then on_ks (sys_env_destroy a1) m
     else if syscallno = 4 then on_ks sys_yield m
     else if syscallno = 5 then on_ks sys_exofork m
     else if syscallno = 6 then on_ks (sys_env_set_status a1 a2) m
     else if syscallno = 13 then on_ks (sys_env_set_trapframe a1 a2) m
     else if syscallno = 7 then on_ks (sys_page_alloc a1 a2 a3) m
     else if syscallno = 8 then on_ks (sys_page_map a1 a2 a3 a4 a5) m
     else if syscallno = 9 then on_ks (sys_page_unmap a1 a2) m
     else if syscallno = 10 then on_ks (sys_env_set_pgfault_upcall a1 a2) m
     else if syscallno = 11 then on_ks (sys_ipc_try_send a1 a2 a3 a4) m
     else if syscallno = 12 then on_ks (sys_ipc_recv a1) m
     else if syscallno = 14 then sys_time_msec m
     else if syscallno = 15 then sys_debug_info a1 a2 a3 m
     else if syscallno = 16 then sys_tx_pkt a1 a2 m
     else if syscallno = 17 then sys_rx_pkt a1 a2 m
     else if syscallno = 18 then on_ks (sys_chdir a1) m
     else if syscallno = 19 then on_ks (sys_add_vma a1 a2 a3 a4) m
     else if syscallno = 20 then on_ks (sys_copy_vma a1 a2) m
     else if syscallno = 21 then on_ks (sys_env_name a1 a2) m
     else Some (Ret (- E_INVAL), m))"

end
