(* ===== verification/Syscall_Mem.thy ===== *)
theory Syscall_Mem
  imports Syscall
begin

text \<open>
  What the memory and message system calls do to the address spaces: they keep the kernel's
  invariant, they change exactly the entries they are asked to change, and their errors leave
  the address spaces as they were. The exception is stated too: the permission argument is
  not checked.
\<close>

subsection \<open>Mapping a page under the kernel's invariant\<close>

lemma kinv_vm_only:
  assumes "kinv s" "vm_only s s'" "vm_inv (spaces s) s'"
  shows "kinv s'" "spaces s' = spaces s"
proof -
  have e: "envs s' = envs s" "env_free_list s' = env_free_list s" "kern_pgdir s' = kern_pgdir s"
    using assms(2) by (simp_all add: vm_only_def)
  have n: "env_next s' = env_next s" by (rule ext) (simp add: env_next_def e)
  show sp: "spaces s' = spaces s" by (simp add: spaces_def dirs_def e)
  show "kinv s'" using assms(1,3)
    by (simp add: kinv_def sp env_list_ok_def free_envs_def n e slots_ok_def kern_ok_def dirs_def)
qed

lemma dirs_spaces: "e < NENV \<Longrightarrow> env_pgdir (envs s e) = Some d \<Longrightarrow> d \<in> spaces s"
  by (auto simp: spaces_def dirs_def)

definition mapped_at :: "nat \<Rightarrow> u32 \<Rightarrow> u32 \<Rightarrow> kstate \<Rightarrow> kstate \<Rightarrow> bool" where
  "mapped_at d va pte s s' \<longleftrightarrow> (\<forall>d' \<in> spaces s. \<forall>i < 955. \<forall>j. entry s' d' i j =
     (if d' = d \<and> i = unat (PDX va) \<and> j = unat (PTX va) then Some pte else entry s d' i j))"

lemma kinv_insert:
  assumes "kinv s" "d \<in> spaces s" "va < UTOP" "perm < 4096" "insertable (spaces s) p s"
  shows "(\<exists>s'. page_insert d (Some p) va perm s = Some (0, s') \<and> kinv s' \<and> vm_only s s' \<and>
      mapped_at d va (page2pa p OR PTE_P OR perm) s s') \<or>
    page_insert d (Some p) va perm s = Some (- E_NO_MEM, s) \<and> table s d (unat (PDX va)) = None \<and> free_pages s = []"
proof -
  note vm = kinv_vm [OF assms(1)]
  have fin: ?thesis if "\<exists>s'. page_insert d (Some p) va perm s = Some (0, s') \<and> inserted (spaces s) d va p perm s s'"
    using that kinv_vm_only [OF assms(1)] by (auto simp: inserted_def mapped_at_def)
  show ?thesis
  proof (cases "table s d (unat (PDX va))")
    case None
    then show ?thesis
      using insert_no_mem [OF vm_inv_free [OF vm] None] insert_creates [OF vm assms(2,3) None assms(4,5)] fin
      by (cases "free_pages s") auto
  next
    case (Some t)
    then show ?thesis using insert_present [OF vm assms(2,3) Some assms(4,5)] fin by blast
  qed
qed

text \<open>Inserting a mapping leaves the contents of every data page alone.\<close>

lemma insert_page_frames:
  assumes "vm_inv D s" "d \<in> D" "va < UTOP" "table s d (unat (PDX va)) = Some t" "f \<noteq> t"
    and "insert_page d (Some p) va t j s = Some (q, s1)"
  shows "mem s1 f = mem s f"
proof -
  have "mem (unmap d va s) f = mem s f" using assms(4,5) by (simp add: unmap_def split: option.split)
  then show ?thesis
    using assms(6) page_remove_unmap [OF assms(1-3)] page_lookup_entry [OF assms(1-3)]
    by (auto simp: insert_page_def split: if_splits)
qed

lemma insert_frames_present:
  assumes "vm_inv D s" "d \<in> D" "va < UTOP" "table s d (unat (PDX va)) = Some t" "f \<noteq> t" "f \<noteq> d"
    and "page_insert d (Some p) va perm s = Some (0, s')"
  shows "mem s' f = mem s f"
proof -
  have w: "pgdir_walk d va True s = Some (Some (t, unat (PTX va)), s)"
    using shapeD(1) [OF vm_inv_shape [OF assms(1)] assms(2) PDX_user [OF assms(3)] assms(4)]
    by (rule walk_present [OF assms(4)])
  obtain q s1 where q: "insert_page d (Some p) va t (unat (PTX va)) s = Some (q, s1)"
    using assms(7) by (cases "insert_page d (Some p) va t (unat (PTX va)) s") (auto simp: page_insert_def w)
  then have "mem s' f = mem s1 f" using assms(5-7) by (auto simp: page_insert_def w Let_def)
  with insert_page_frames [OF assms(1-5) q] show ?thesis by simp
qed

lemma insert_frames:
  assumes "vm_inv D s" "d \<in> D" "va < UTOP" "f \<notin> D \<union> tables D s \<union> set (free_pages s)"
    and "page_insert d (Some p) va perm s = Some (0, s')"
  shows "mem s' f = mem s f"
proof (cases "table s d (unat (PDX va))")
  case (Some t)
  have "t \<in> tables D s" using assms(2) Some PDX_user [OF assms(3)] by (auto simp: tables_def)
  then show ?thesis using insert_frames_present [OF assms(1-3) Some _ _ assms(5), of f] assms(2,4) by auto
next
  case None
  note fr = vm_inv_free [OF assms(1)]
  obtain r rs where fp: "free_pages s = r # rs"
    using insert_no_mem [OF fr None] assms(5) by (cases "free_pages s") auto
  let ?a = "add_table d (unat (PDX va)) r s"
  have rd: "r \<noteq> d" using new_page_unused [OF assms(1) fp] assms(2) by auto
  have inv: "vm_inv D ?a" using add_table_inv [OF assms(1,2) PDX_user [OF assms(3)] fp None] by auto
  have t: "table ?a d (unat (PDX va)) = Some r" using add_table_table [OF assms(1,2) fp assms(2)] by simp
  have "page_insert d (Some p) va perm s = page_insert d (Some p) va perm ?a"
    using walk_create [OF fr fp None] rd walk_present [OF t] inv fp fr
    by (simp add: page_insert_def free_ok_def)
  moreover have "f \<noteq> r" "f \<noteq> d" using assms(2,4) fp by auto
  moreover have "mem ?a f = mem s f" using \<open>f \<noteq> r\<close> \<open>f \<noteq> d\<close> by (simp add: add_table_def)
  ultimately show ?thesis using insert_frames_present [OF inv assms(2,3) t, of f p perm s'] assms(5) by simp
qed

text \<open>Taking a page from the free list.\<close>

lemma take_page_inv:
  assumes "kinv s" "free_pages s = p # ps"
  shows "kinv (take_page z p s)" "spaces (take_page z p s) = spaces s" "insertable (spaces s) p (take_page z p s)"
    "\<And>d i j. d \<in> spaces s \<Longrightarrow> i < 955 \<Longrightarrow> entry (take_page z p s) d i j = entry s d i j"
    "\<And>d i. d \<in> spaces s \<Longrightarrow> table (take_page z p s) d i = table s d i"
    "page_alloc z s = Some (Some p, take_page z p s)" "free_pages (take_page z p s) = ps" "vm_only s (take_page z p s)"
proof -
  let ?s = "take_page z p s"
  note vm = kinv_vm [OF assms(1)] and fr = vm_inv_free [OF kinv_vm [OF assms(1)]]
  have p: "p < npages s" "pp_ref (pages s p) = 0" using fr assms(2) by (auto simp: free_ok_def)
  then have psl: "slots (spaces s) s p = {}" using vm finite_slots [OF vm_inv_shape [OF vm]] by (auto simp: vm_inv_def)
  have pd: "p \<notin> set ps" using free_ok_distinct [OF fr] assms(2) by simp
  note np = new_page_unused [OF vm assms(2)]
  have f: "free_ok ?s" "free_pages ?s = ps" using take_page_free [OF fr assms(2)] by auto
  note o = vm_inv_other_frame [OF vm np f(1) _ _ _ psl]
  show vo: "vm_only s ?s" by (simp add: vm_only_def)
  show k: "kinv ?s" "spaces ?s = spaces s" using kinv_vm_only [OF assms(1) vo] o(1) by auto
  show "insertable (spaces s) p ?s" using p np pd f(2) o(3) by (simp add: insertable_def)
  show "page_alloc z s = Some (Some p, ?s)" by (rule page_alloc_cons [OF fr assms(2)])
  show "free_pages ?s = ps" by (rule f(2))
  show "entry ?s d i j = entry s d i j" if "d \<in> spaces s" "i < 955" for d i j using o(5) [OF _ _ _ that] by simp
  show "table ?s d i = table s d i" if "d \<in> spaces s" for d i using o(4) [OF _ _ _ that] by simp
qed

lemma put_page_inv:
  assumes "kinv s" "p < npages s" "p \<notin> set (free_pages s)" "pp_ref (pages s p) = 0"
  shows "kinv (put_page p s)" "page_free p s = Some (put_page p s)" "free_pages (put_page p s) = p # free_pages s"
proof -
  note vm = kinv_vm [OF assms(1)] and fr = vm_inv_free [OF kinv_vm [OF assms(1)]]
  note f = put_page_free [OF fr assms(2-4)]
  show "page_free p s = Some (put_page p s)" by (rule page_free_ok [OF fr assms(2-4)])
  show "free_pages (put_page p s) = p # free_pages s" using f by simp
  have psl: "slots (spaces s) s p = {}"
    using vm finite_slots [OF vm_inv_shape [OF vm]] assms(2,4) by (auto simp: vm_inv_def)
  have np: "p \<notin> spaces s \<union> tables (spaces s) s" using vm assms(4) by (auto simp: vm_inv_def)
  have "vm_inv (spaces s) (put_page p s)" using vm_inv_other_frame(1) [OF vm np _ _ _ _ psl] f by simp
  then show "kinv (put_page p s)" using kinv_vm_only(1) [OF assms(1)] by (simp add: vm_only_def)
qed

subsection \<open>Properties\<close>

text \<open>C23: allocating a page for an environment. With an aligned address below \<open>UTOP\<close> and permission bits
  only, the call either maps a zeroed page that was free at exactly that address and returns
  0, or, with at most one page left, returns \<open>-E_NO_MEM\<close> with every address space and the set of free pages unchanged;
  the kernel's invariant holds in both cases.\<close>

theorem sys_page_alloc_correct:
  assumes "kinv s" "envid2env envid True s = Some (0, Some e)" "e < NENV" "env_pgdir (envs s e) = Some d"
    and "\<not> bad_va va" "perm < 4096"
  shows "\<exists>r s'. sys_page_alloc envid va perm s = Some (Ret r, s') \<and> kinv s' \<and> vm_only s s' \<and>
    (if r = 0
     then \<exists>p \<in> set (free_pages s). mem s' p = (\<lambda>_. 0) \<and> mapped_at d va (page2pa p OR PTE_P OR (perm OR PTE_U)) s s'
     else r = - E_NO_MEM \<and> length (free_pages s) \<le> 1 \<and> set (free_pages s') = set (free_pages s) \<and>
       (\<forall>d \<in> spaces s. \<forall>i < 955. \<forall>j. entry s' d i j = entry s d i j))"
proof (cases "free_pages s")
  case Nil
  then have "page_alloc True s = Some (None, s)" by (rule page_alloc_empty [OF vm_inv_free [OF kinv_vm [OF assms(1)]]])
  then show ?thesis using assms Nil by (simp add: sys_page_alloc_def)
next
  case (Cons p ps)
  let ?a = "take_page True p s"
  note t = take_page_inv [OF assms(1) Cons, where z = True]
  have va: "va < UTOP" and pm: "perm OR PTE_U < 4096" using assms(5,6) flags_or by (auto simp: bad_va_def)
  have d: "d \<in> spaces ?a" using dirs_spaces [OF assms(3,4)] t(2) by simp
  have pg: "env_pgdir (envs ?a e) = Some d" using assms(4) by simp
  have vm: "vm_inv (spaces ?a) ?a" by (rule kinv_vm [OF t(1)])
  have pd: "p \<notin> spaces s \<union> tables (spaces s) ?a" "p \<notin> set (free_pages ?a)" "p < npages s"
    using t(3) by (auto simp: insertable_def)
  from kinv_insert [OF t(1) d va pm, of p] t(3)
  consider (ok) s' where "page_insert d (Some p) va (perm OR PTE_U) ?a = Some (0, s')" "kinv s'" "vm_only ?a s'"
      "mapped_at d va (page2pa p OR PTE_P OR (perm OR PTE_U)) ?a s'"
    | (no_mem) "page_insert d (Some p) va (perm OR PTE_U) ?a = Some (- E_NO_MEM, ?a)" "free_pages ?a = []"
    unfolding t(2) by blast
  then show ?thesis
  proof cases
    case ok
    have "mem s' p = mem ?a p" using insert_frames [OF vm d va _ ok(1), of p] pd t(2) by simp
    then have "mem s' p = (\<lambda>_. 0)" by simp
    moreover have "mapped_at d va (page2pa p OR PTE_P OR (perm OR PTE_U)) s s'"
      using ok(4) t(2,4) by (simp add: mapped_at_def)
    moreover have "sys_page_alloc envid va perm s = Some (Ret 0, s')"
      using assms(2,5) t(6) pg ok(1) by (simp add: sys_page_alloc_def)
    ultimately show ?thesis
      using ok(2) vm_only_trans [OF t(8) ok(3)] Cons by (intro exI [of _ 0] exI [of _ s']) auto
  next
    case no_mem
    have p0: "pp_ref (pages ?a p) = 0" using vm_inv_free [OF kinv_vm [OF assms(1)]] Cons by (auto simp: free_ok_def)
    note f = put_page_inv [OF t(1) _ pd(2) p0]
    have en: "entry (put_page p ?a) = entry ?a" by (rule entry_mem) simp
    have "sys_page_alloc envid va perm s = Some (Ret (- E_NO_MEM), put_page p ?a)"
      using assms(2,5) t(6) pg no_mem(1) f(2) pd(3) by (simp add: sys_page_alloc_def)
    moreover have "vm_only s (put_page p ?a)" by (simp add: vm_only_def)
    ultimately show ?thesis using f(1,3) pd(3) no_mem(2) t(4,7) Cons en by simp
  qed
qed

definition sys_demo :: kstate where
  "sys_demo = set_curenv (Some 0) env_started"

lemma sys_demo_inv: "kinv sys_demo" "envid2env 0 True sys_demo = Some (0, Some 0)"
  "env_pgdir (envs sys_demo 0) = Some 300" "free_pages sys_demo = [301, 302, 303]"
proof -
  have "kinv sys_demo = kinv env_started" by (rule kinv_cong) (simp_all add: sys_demo_def)
  then show "kinv sys_demo" using started_inv by simp
  show "free_pages sys_demo = [301, 302, 303]"
  proof -
    let ?s = "new_space 0 300 env_demo"
    have "free_pages ?s = [301, 302, 303]"
      using new_space_free [OF env_demo_fields(5,4)] by simp
    moreover have "page_next sys_demo = page_next ?s"
      by (rule ext) (simp add: page_next_def sys_demo_def env_started_def alloc_state_def)
    ultimately show ?thesis by (simp add: free_pages_def sys_demo_def env_started_def alloc_state_def)
  qed
qed (simp_all add: sys_demo_def envid2env_def started_pgdir)

lemma demo_aligned: "\<not> bad_va 0x800000"
  by (simp add: bad_va_def layout)

theorem sys_page_alloc_correct_witness:
  "\<exists>s'. sys_page_alloc 0 0x800000 7 sys_demo = Some (Ret 0, s') \<and> kinv s'"
proof -
  obtain r s' where "sys_page_alloc 0 0x800000 7 sys_demo = Some (Ret r, s')" "kinv s'" "r \<noteq> 0 \<longrightarrow> length (free_pages sys_demo) \<le> 1"
    using sys_page_alloc_correct [OF sys_demo_inv(1,2) _ sys_demo_inv(3) demo_aligned, of 7]
    by (auto simp: NENV_def split: if_splits)
  then show ?thesis by (cases "r = 0") (auto simp: sys_demo_inv(4))
qed


text \<open>The demonstration state with page 301 mapped writable at \<^verbatim>\<open>0x800000\<close> by the current environment.\<close>

definition sys_mapped :: kstate where
  "sys_mapped = snd (the (page_insert 300 (Some 301) 0x800000 7 (take_page True 301 sys_demo)))"

lemma sys_mapped_inv:
  "kinv sys_mapped" "vm_only sys_demo sys_mapped" "entry sys_mapped 300 2 0 = Some 0x12D007"
  "pp_ref (pages sys_mapped 301) = 1"
proof -
  let ?a = "take_page True 301 sys_demo"
  note t = take_page_inv [OF sys_demo_inv(1,4), where z = True]
  have d: "300 \<in> spaces ?a" using dirs_spaces [OF _ sys_demo_inv(3)] t(2) by (simp add: NENV_def)
  have "table env_started 300 2 = None"
    using new_space_inv(2) [OF kinv_vm [OF env_demo_inv] env_demo_fields(4)] env_demo_fields(2)
      table_mem [of env_started "new_space 0 300 env_demo"] by (simp add: env_started_def alloc_state_def)
  then have "table ?a 300 2 = None"
    using t(5) d t(2) table_mem [of sys_demo env_started] by (simp add: sys_demo_def)
  then obtain s' where s': "page_insert 300 (Some 301) 0x800000 7 ?a = Some (0, s')"
    "inserted (spaces ?a) 300 0x800000 301 7 ?a s'" "pp_ref (pages s' 301) = insert_ref 300 0x800000 301 ?a 301"
    using insert_creates [OF kinv_vm [OF t(1)] d demo_va(1) _ _ _ t(7), of 7 301] t(2,3) by auto
  have eq: "sys_mapped = s'" by (simp add: sys_mapped_def s'(1))
  have e: "page2pa 301 OR 1 OR 7 = (0x12D007 :: u32)" by (simp add: page2pa_def push_bit_eq_mult)
  show "kinv sys_mapped" "vm_only sys_demo sys_mapped" "entry sys_mapped 300 2 0 = Some 0x12D007"
    using kinv_vm_only(1) [OF t(1)] vm_only_trans [OF t(8)] s'(2) d e by (auto simp: eq inserted_def)
  have "pp_ref (pages sys_demo 301) = 0"
    using vm_inv_free [OF kinv_vm [OF sys_demo_inv(1)]] sys_demo_inv(4) by (auto simp: free_ok_def)
  moreover have "entry ?a 300 2 0 = None" using \<open>table ?a 300 2 = None\<close> by (simp add: entry_def)
  ultimately show "pp_ref (pages sys_mapped 301) = 1" by (simp add: eq s'(3) insert_ref_def)
qed

lemma sys_mapped_table:
  "free_pages sys_mapped = [303]" "table sys_mapped 300 2 = Some 302" "entry sys_mapped 300 2 1 = None"
proof -
  let ?a = "take_page True 301 sys_demo"
  let ?b = "add_table 300 2 302 ?a"
  note t = take_page_inv [OF sys_demo_inv(1,4), where z = True]
  note vm = kinv_vm [OF t(1)]
  have d: "300 \<in> spaces ?a" using dirs_spaces [OF _ sys_demo_inv(3)] t(2) by (simp add: NENV_def)
  have none: "table ?a 300 (unat (PDX 0x800000)) = None"
    using new_space_inv(2) [OF kinv_vm [OF env_demo_inv] env_demo_fields(4)] env_demo_fields(2) t(5) d t(2)
      table_mem [of sys_demo "new_space 0 300 env_demo"] by (simp add: sys_demo_def env_started_def alloc_state_def)
  have w: "pgdir_walk 300 0x800000 True ?a = Some (Some (302, 0), ?b)"
    using walk_create [OF vm_inv_free [OF vm] t(7) none] by simp
  have tb: "table ?b 300 2 = Some 302" using add_table_table [OF vm d t(7) d] by simp
  have inv: "vm_inv (spaces ?a) ?b" "free_pages ?b = [303]"
    using add_table_inv [OF vm d _ t(7)] none by auto
  have en: "entry ?b 300 2 j = None" for j
    using add_table_entry [OF vm d t(7) none d, of 2 j] none by (simp add: entry_def)
  then have "\<not> has (mem ?b 302 0) PTE_P" using entry_present [OF tb] by blast
  then have eq: "sys_mapped = link_page 300 0x800000 302 301 7 (ref_inc 301 ?b)"
    using w by (simp add: sys_mapped_def page_insert_def insert_page_def link_page_def Let_def del: take_page_fields)
  show "free_pages sys_mapped = [303]" using inv(2) by (simp add: eq)
  have r: "table (ref_inc 301 ?b) = table ?b" "entry (ref_inc 301 ?b) = entry ?b"
    by (rule table_mem, simp) (rule entry_mem, simp)
  have sh: "pt_shape (spaces ?a) (ref_inc 301 ?b)"
    using vm_inv_shape [OF inv(1)] pt_shape_cong [of "spaces ?a" "ref_inc 301 ?b" ?b] r by simp
  show "table sys_mapped 300 2 = Some 302"
    using link_table [OF sh d demo_va(1), of 302 7 300 301 2] d tb r by (simp add: eq)
  show "entry sys_mapped 300 2 1 = None"
    using link_entry [OF sh d demo_va(1), of 302 7 301 300 2 1] d tb r en by (simp add: eq)
qed

lemma demo_va2: "\<not> bad_va 0x801000" "unat (PDX 0x801000) = 2" "unat (PTX 0x801000) = 1" "frame_of 0x12D007 = 301"
  "has 0x12D007 PTE_W" "(0x801000 :: u32) < UTOP"
  by (simp_all add: bad_va_def layout unat_PDX unat_PTX frame_of_def unat_PGNUM has_def)

lemma sys_mapped_env:
  "envid2env 0 True sys_mapped = Some (0, Some 0)" "env_pgdir (envs sys_mapped 0) = Some 300" "curenv sys_mapped = Some 0"
  using sys_mapped_inv(2) vm_only_curenv [OF sys_mapped_inv(2)] sys_demo_inv(2,3)
  by (simp_all add: vm_only_def envid2env_def)


lemma PGNUM_or: "PGNUM (a OR b) = PGNUM a OR PGNUM b" "PGNUM 1 = 0" "PGNUM 4 = 0"
proof -
  show "PGNUM (a OR b) = PGNUM a OR PGNUM b" by (simp add: PGNUM_def drop_bit_or)
qed (simp_all add: PGNUM_def drop_bit_eq_div)

text \<open>C27: the permission argument is not checked. A caller that passes address bits in it gets a success,
  with a page-table entry whose frame is the allocated page or-ed with a frame of its choice,
  and a directory entry whose table is changed the same way.\<close>

theorem sys_page_alloc_perm_escapes:
  assumes "kinv s" "envid2env envid True s = Some (0, Some e)" "e < NENV" "env_pgdir (envs s e) = Some d"
    and "\<not> bad_va va" "free_pages s = p # ps" "table s d (unat (PDX va)) = Some t"
    and "entry s d (unat (PDX va)) (unat (PTX va)) = None"
  shows "\<exists>s'. sys_page_alloc envid va perm s = Some (Ret 0, s') \<and>
    PGNUM (mem s' t (unat (PTX va))) = of_nat p OR PGNUM perm \<and>
    PGNUM (mem s' d (unat (PDX va))) = of_nat t OR PGNUM perm"
proof -
  let ?a = "take_page True p s"
  note t = take_page_inv [OF assms(1,6), where z = True]
  have va: "va < UTOP" using assms(5) by (auto simp: bad_va_def)
  have d: "d \<in> spaces s" by (rule dirs_spaces [OF assms(3,4)])
  note vm = kinv_vm [OF t(1), unfolded t(2)]
  have tb: "table ?a d (unat (PDX va)) = Some t" using t(5) [OF d] assms(7) by simp
  have en: "entry ?a d (unat (PDX va)) (unat (PTX va)) = None" using t(4) [OF d PDX_user [OF va]] assms(8) by simp
  have td: "t \<noteq> d" "t < npages s"
    using shapeD(1,2) [OF vm_inv_shape [OF vm] d PDX_user [OF va] tb] d by auto
  have p20: "p < 2 ^ 20" "t < 2 ^ 20"
    using vm_inv_npages [OF kinv_vm [OF assms(1)]] td(2) t(3) by (auto simp: insertable_def)
  have "\<not> has (mem ?a t (unat (PTX va))) PTE_P" using entry_present [OF tb, of "unat (PTX va)"] en by blast
  then have run: "insert_page d (Some p) va t (unat (PTX va)) ?a = Some (p, ref_inc p ?a)"
    by (simp add: insert_page_def del: take_page_fields)
  let ?s = "link_page d va t p (perm OR PTE_U) (ref_inc p ?a)"
  have "sys_page_alloc envid va perm s = Some (Ret 0, ?s)"
    using assms(2,4,5) t(6) page_insert_settled [OF vm d va tb run] by (simp add: sys_page_alloc_def)
  moreover have "PGNUM (mem ?s t (unat (PTX va))) = of_nat p OR PGNUM perm"
  proof -
    have "PGNUM (page2pa p) = of_nat p" using PGNUM_page2pa [OF p20(1)] p20 by (simp add: word_unat_eq_iff)
    then show ?thesis using td by (simp add: link_page_def Let_def PGNUM_or)
  qed
  moreover have "PGNUM (mem ?s d (unat (PDX va))) = of_nat t OR PGNUM perm"
  proof -
    have "unat (PGNUM (mem ?a d (unat (PDX va)))) = t" using tb by (simp add: table_def split: if_splits)
    then have "PGNUM (mem ?a d (unat (PDX va))) = of_nat t" using p20 by (simp add: word_unat_eq_iff del: take_page_fields)
    then show ?thesis using td by (simp add: link_page_def Let_def PGNUM_or)
  qed
  ultimately show ?thesis by blast
qed

theorem sys_page_alloc_perm_escapes_witness:
  "\<exists>s'. sys_page_alloc 0 0x801000 0x100007 sys_mapped = Some (Ret 0, s') \<and> PGNUM (mem s' 302 1) = 303 OR 0x100"
  using sys_page_alloc_perm_escapes [OF sys_mapped_inv(1) sys_mapped_env(1) _ sys_mapped_env(2) demo_va2(1)
      sys_mapped_table(1), of 302 "0x100007"] sys_mapped_table(2,3) demo_va2(2,3)
  by (auto simp: NENV_def PGNUM_def drop_bit_eq_div)


definition ipc_demo :: kstate where
  "ipc_demo = env_upd 0 (\<lambda>v. v\<lparr>env_ipc_recving := True, env_ipc_dstva := 0x801000\<rparr>) sys_mapped"


text \<open>C26: a receiver waits for its message. \<open>sys_ipc_recv\<close> with a valid address suspends the caller, which is
  then neither chosen by the scheduler nor able to run until a send makes it runnable; its
  result register already holds the 0 it will see.\<close>

theorem sys_ipc_recv_blocks:
  assumes "kinv s" "holding (cpunum s) (kernel_lock s)" "curenv s = Some c" "c < NENV"
    and "env_status (envs s c) = ENV_RUNNING" "\<not> bad_va dstva" "x < NENV" "env_status (envs s x) = ENV_RUNNABLE"
  shows "\<exists>e s'. sys_ipc_recv dstva s = Some (Resume e, s') \<and> kinv s' \<and> e \<noteq> c \<and>
    env_status (envs s' c) = ENV_NOT_RUNNABLE \<and> reg_eax (tf_regs (env_tf (envs s' c))) = 0 \<and> curenv s' = Some e"
proof -
  let ?w = "ipc_wait c dstva s"
  have k: "kinv ?w = kinv s" by (rule kinv_cong) (use assms(5) in \<open>simp_all add: ipc_wait_def\<close>)
  have f: "cpunum ?w = cpunum s" "kernel_lock ?w = kernel_lock s" "curenv ?w = Some c"
    "env_status (envs ?w c) = ENV_NOT_RUNNABLE" "reg_eax (tf_regs (env_tf (envs ?w c))) = 0"
    using assms(3) by (simp_all add: ipc_wait_def curenv_def)
  have xc: "x \<noteq> c" using assms(5,8) by auto
  then have x: "env_status (envs ?w x) = ENV_RUNNABLE" using assms(8) by (simp add: ipc_wait_def)
  obtain e s' where y: "sched_yield ?w = Some (Resume e, s')" "env_run e ?w = Some (Resume e, s')" "e < NENV"
    "env_status (envs ?w e) = ENV_RUNNABLE"
    using sched_yield_runs [of ?w x] k assms(1,2,7) f x by auto
  have ec: "e \<noteq> c" using y(4) f(4) by auto
  have "env_status (envs ?w e) \<noteq> ENV_FREE" using y(4) by simp
  from env_run_ok [OF _ y(3) this] y(2) k assms(1,2) f
  have "kinv s'" "curenv s' = Some e" "\<forall>x. env_status (envs s' x) = run_status e ?w x"
    "\<forall>x. env_tf (envs s' x) = env_tf (envs ?w x)" by auto
  then show ?thesis using y(1) ec f assms(3,6) by (simp add: sys_ipc_recv_def run_status_def)
qed

definition two_envs :: kstate where
  "two_envs = (set_curenv (Some 0) (env_upd 0 (\<lambda>v. v\<lparr>env_status := ENV_RUNNING\<rparr>) (alloc_state 1 0 301 env_started)))
     \<lparr>kernel_lock := \<lparr>locked = 1, lock_cpu = Some (cpunum env_started)\<rparr>\<rparr>"

lemma started_lists: "env_free_list env_started = Some 1" "free_pages env_started = [301, 302, 303]"
proof -
  have "env_next env_demo 0 = Some 1"
    using env_init_next [of 1023 four_free 0] by (simp add: env_demo_def env_init_def env_next_def NENV_def del: upt_rec_numeral)
  then show "env_free_list env_started = Some 1" by (simp add: env_started_def alloc_state_def env_next_def)
  have "free_pages sys_demo = free_pages env_started"
    by (simp add: free_pages_def sys_demo_def page_next_def [abs_def])
  then show "free_pages env_started = [301, 302, 303]" using sys_demo_inv(4) by simp
qed

theorem sys_ipc_recv_blocks_witness:
  "\<exists>e s'. sys_ipc_recv 0 two_envs = Some (Resume e, s') \<and> kinv s' \<and> e \<noteq> 0 \<and> env_status (envs s' 0) = ENV_NOT_RUNNABLE"
proof -
  let ?a = "alloc_state 1 0 301 env_started"
  have "kinv two_envs = kinv ?a"
    by (rule kinv_cong) (simp_all add: two_envs_def alloc_status started_status)
  then have k: "kinv two_envs" using env_alloc_inv(1) [OF started_inv started_lists] by simp
  have l: "holding (cpunum two_envs) (kernel_lock two_envs)"
    by (simp add: two_envs_def holding_def alloc_state_def new_space_fields)
  show ?thesis
    using sys_ipc_recv_blocks [OF k l, of 0 0 1]
    by (auto simp: two_envs_def alloc_status NENV_def bad_va_def layout curenv_def)
qed

end
