(* ===== verification/Trap.thy ===== *)
theory Trap
  imports Syscall_Mem
begin

text \<open>
  Traps, \<^verbatim>\<open>kernel/trap.c\<close>: the page-fault handler with its upcall frame, the dispatcher, and the entry
  from user or kernel mode, and the gates through which the processor gets there. The messages
  that the handlers print are not modelled; \<^verbatim>\<open>lapic_eoi\<close> acknowledges the interrupt and changes
  no state of the kernel. Entering the monitor is the end \<open>Monitor\<close>: no command of it returns to
  its caller.
\<close>

subsection \<open>Gates\<close>

text \<open>
  The gates that \<^verbatim>\<open>trap_init\<close> installs: the vector, the handler and the least privileged level from
  which the \<^verbatim>\<open>int\<close> instruction may use the gate.
\<close>

definition trap_gates :: "(nat \<times> string \<times> nat) list" where
  "trap_gates =
    [(0, ''traphandler_0'', 0), (1, ''traphandler_1'', 0), (2, ''traphandler_2'', 0), (3, ''traphandler_3'', 3),
     (4, ''traphandler_4'', 0), (5, ''traphandler_5'', 0), (6, ''traphandler_6'', 0), (7, ''traphandler_7'', 0),
     (8, ''traphandler_8'', 0), (10, ''traphandler_10'', 0), (11, ''traphandler_11'', 0), (12, ''traphandler_12'', 0),
     (13, ''traphandler_13'', 0), (14, ''traphandler_14'', 0), (16, ''traphandler_16'', 0), (17, ''traphandler_17'', 0),
     (18, ''traphandler_18'', 0), (19, ''traphandler_19'', 0),
     (48, ''traphandler_48'', 3),
     (32 + 0, ''irqhandler_0'', 3), (32 + 1, ''irqhandler_1'', 3), (32 + 4, ''irqhandler_4'', 3),
     (32 + 7, ''irqhandler_7'', 3), (32 + 14, ''irqhandler_14'', 3), (32 + 19, ''irqhandler_19'', 3)]"

text \<open>
  The entry points: the trap number that each handler pushes, and whether it also pushes a
  zero in the place of the error code that the processor pushes for some exceptions.
\<close>

definition trap_entries :: "(string \<times> nat \<times> bool) list" where
  "trap_entries =
    [(''traphandler_0'', 0, True), (''traphandler_1'', 1, True), (''traphandler_2'', 2, True),
     (''traphandler_3'', 3, True), (''traphandler_4'', 4, True), (''traphandler_5'', 5, True),
     (''traphandler_6'', 6, True), (''traphandler_7'', 7, True), (''traphandler_8'', 8, False),
     (''traphandler_10'', 10, False), (''traphandler_11'', 11, False), (''traphandler_12'', 12, False),
     (''traphandler_13'', 13, False), (''traphandler_14'', 14, False), (''traphandler_16'', 16, True),
     (''traphandler_17'', 17, False), (''traphandler_18'', 18, True), (''traphandler_19'', 19, True),
     (''traphandler_48'', 48, True),
     (''irqhandler_0'', 32 + 0, True), (''irqhandler_1'', 32 + 1, True), (''irqhandler_4'', 32 + 4, True),
     (''irqhandler_7'', 32 + 7, True), (''irqhandler_14'', 32 + 14, True), (''irqhandler_19'', 32 + 19, True)]"

text \<open>The exceptions for which the processor itself pushes an error code.\<close>

definition cpu_error_code :: "nat \<Rightarrow> bool" where
  "cpu_error_code v \<longleftrightarrow> v \<in> {8, 10, 11, 12, 13, 14, 17}"

text \<open>
  The trap number that reaches the kernel when a user program executes \<open>int v\<close>: that of the
  gate, or a general protection fault.
\<close>

definition user_int :: "nat \<Rightarrow> nat" where
  "user_int v =
    (case map_of trap_gates v of
       Some (h, dpl) \<Rightarrow> if dpl = 3 then (case map_of trap_entries h of Some (n, _) \<Rightarrow> n | None \<Rightarrow> 13) else 13
     | None \<Rightarrow> 13)"

definition exception_names :: "string list" where
  "exception_names =
    [''Divide error'', ''Debug'', ''Non-Maskable Interrupt'', ''Breakpoint'', ''Overflow'',
     ''BOUND Range Exceeded'', ''Invalid Opcode'', ''Device Not Available'', ''Double Fault'',
     ''Coprocessor Segment Overrun'', ''Invalid TSS'', ''Segment Not Present'', ''Stack Fault'',
     ''General Protection'', ''Page Fault'', ''(unknown trap)'', ''x87 FPU Floating-Point Error'',
     ''Alignment Check'', ''Machine-Check'', ''SIMD Floating-Point Exception'']"

definition trapname :: "u32 \<Rightarrow> string" where
  "trapname trapno =
    (if unat trapno < length exception_names then exception_names ! unat trapno
     else if trapno = 48 then ''System call''
     else if 32 \<le> sint trapno \<and> sint trapno < 32 + 16 then ''Hardware Interrupt''
     else ''(unknown trap)'')"

subsection \<open>Page faults\<close>

text \<open>The words of \<^verbatim>\<open>struct UTrapframe\<close>, from the lowest address up.\<close>

definition utf_words :: "u32 \<Rightarrow> trapframe \<Rightarrow> u32 list" where
  "utf_words fault_va tf =
    (let r = tf_regs tf in
     [fault_va, tf_err tf, reg_edi r, reg_esi r, reg_ebp r, reg_oesp r, reg_ebx r, reg_edx r, reg_ecx r, reg_eax r,
      tf_eip tf, tf_eflags tf, tf_esp tf])"

fun kwrite_words :: "u32 \<Rightarrow> u32 list \<Rightarrow> kstate \<Rightarrow> kstate option" where
  "kwrite_words va [] s = Some s"
| "kwrite_words va (w # ws) s = do { s \<leftarrow> kwrite32 va w s; kwrite_words (va + 4) ws s }"

definition utf_esp :: "trapframe \<Rightarrow> u32" where
  "utf_esp tf = (if UXSTACKTOP - PGSIZE \<le> tf_esp tf \<and> tf_esp tf < UXSTACKTOP
     then tf_esp tf - 4 - 52 else UXSTACKTOP - 52)"

definition page_fault_handler :: "u32 \<Rightarrow> trapframe \<Rightarrow> kstate \<Rightarrow> (ctl \<times> kstate) option" where
  "page_fault_handler fault_va tf s = do {
     _ \<leftarrow> guard (tf_cs tf AND 3 = 3);
     c \<leftarrow> curenv s;
     if env_pgfault_upcall (envs s c) \<noteq> 0 then do {
       let esp = utf_esp tf;
       then_ret (user_mem_assert c esp 52 PTE_W s) (\<lambda>s. do {
         s \<leftarrow> kwrite_words esp (utf_words fault_va tf) s;
         env_run c (env_upd c (\<lambda>v. v\<lparr>env_tf := (env_tf v)\<lparr>tf_esp := esp, tf_eip := env_pgfault_upcall v\<rparr>\<rparr>) s)
       })
     }
     else env_destroy c s
   }"

subsection \<open>Dispatch\<close>

abbreviation (input) T_DEBUG :: u32 where "T_DEBUG \<equiv> 1"
abbreviation (input) T_BRKPT :: u32 where "T_BRKPT \<equiv> 3"
abbreviation (input) T_PGFLT :: u32 where "T_PGFLT \<equiv> 14"
abbreviation (input) T_SYSCALL :: u32 where "T_SYSCALL \<equiv> 48"
abbreviation (input) IRQ_OFFSET :: u32 where "IRQ_OFFSET \<equiv> 32"

text \<open>\<open>dest\<close> is the environment whose saved frame \<open>tf\<close> is, for a trap from user mode.\<close>

definition set_eax :: "nat option \<Rightarrow> int \<Rightarrow> kstate \<Rightarrow> kstate" where
  "set_eax dest ret s =
    (case dest of
       None \<Rightarrow> s
     | Some c \<Rightarrow> env_upd c (\<lambda>v. v\<lparr>env_tf := (env_tf v)\<lparr>tf_regs := (tf_regs (env_tf v))\<lparr>reg_eax := word_of_int ret\<rparr>\<rparr>\<rparr>) s)"

definition trap_dispatch :: "debug_info \<Rightarrow> u32 \<Rightarrow> nat option \<Rightarrow> trapframe \<Rightarrow> machine \<Rightarrow> (ctl \<times> machine) option" where
  "trap_dispatch dbg cr2 dest tf m =
    (if tf_trapno tf = T_PGFLT then on_ks (page_fault_handler cr2 tf) m
     else if tf_trapno tf = T_BRKPT \<or> tf_trapno tf = T_DEBUG then Some (Monitor, m)
     else if tf_trapno tf = T_SYSCALL then do {
       let r = tf_regs tf;
       (c, m) \<leftarrow> syscall dbg (reg_eax r) (reg_edx r) (reg_ecx r) (reg_ebx r) (reg_edi r) (reg_esi r) m;
       Some (c, case c of Ret ret \<Rightarrow> m\<lparr>ks := set_eax dest ret (ks m)\<rparr> | _ \<Rightarrow> m)
     }
     else if tf_trapno tf = IRQ_OFFSET + 0 then do {
       t \<leftarrow> (if cpunum (ks m) = 0 then time_tick (ticks m) else Some (ticks m));
       on_ks sched_yield (m\<lparr>ticks := t\<rparr>)
     }
     else if tf_trapno tf = IRQ_OFFSET + 7 then Some (Ret 0, m)
     else if tf_trapno tf = IRQ_OFFSET + 1 then do { c \<leftarrow> kbd_intr (con m); Some (Ret 0, m\<lparr>con := c\<rparr>) }
     else if tf_trapno tf = IRQ_OFFSET + 4 then do { c \<leftarrow> serial_intr (con m); Some (Ret 0, m\<lparr>con := c\<rparr>) }
     else do {
       _ \<leftarrow> guard (tf_cs tf \<noteq> 0x08);
       c \<leftarrow> curenv (ks m);
       on_ks (env_destroy c) m
     })"

definition trap_return :: "kstate \<Rightarrow> (ctl \<times> kstate) option" where
  "trap_return s =
    (case curenv s of
       Some c \<Rightarrow> if env_status (envs s c) = ENV_RUNNING then env_run c s else sched_yield s
     | None \<Rightarrow> sched_yield s)"

definition trap_finish :: "debug_info \<Rightarrow> u32 \<Rightarrow> nat option \<Rightarrow> trapframe \<Rightarrow> machine \<Rightarrow> (ctl \<times> machine) option" where
  "trap_finish dbg cr2 dest tf m = do {
     (c, m) \<leftarrow> trap_dispatch dbg cr2 dest tf m;
     case c of Ret _ \<Rightarrow> on_ks trap_return m | _ \<Rightarrow> Some (c, m)
   }"

definition trap :: "debug_info \<Rightarrow> u32 \<Rightarrow> trapframe \<Rightarrow> machine \<Rightarrow> (ctl \<times> machine) option" where
  "trap dbg cr2 tf m =
    (if tf_cs tf AND 3 = 3 then do {
       s \<leftarrow> lock_kernel (ks m);
       c \<leftarrow> curenv s;
       if env_status (envs s c) = ENV_DYING then do {
         s \<leftarrow> env_free c s;
         on_ks sched_yield (m\<lparr>ks := set_curenv None s\<rparr>)
       }
       else trap_finish dbg cr2 (Some c) tf (m\<lparr>ks := env_upd c (\<lambda>v. v\<lparr>env_tf := tf\<rparr>) s\<rparr>)
     }
     else do {
       let s = ks m;
       let old = cpu_status (cpus s (cpunum s));
       let s = s\<lparr>cpus := (cpus s)(cpunum s := (cpus s (cpunum s))\<lparr>cpu_status := CPU_STARTED\<rparr>)\<rparr>;
       s \<leftarrow> (if old = CPU_HALTED then lock_kernel s else Some s);
       trap_finish dbg cr2 None tf (m\<lparr>ks := s\<rparr>)
     })"

subsection \<open>What traps do\<close>


definition trap_demo :: machine where
  "trap_demo =
    \<lparr>ks = set_curenv (Some 0) (env_upd 0 (\<lambda>v. v\<lparr>env_status := ENV_RUNNING\<rparr>)
       (sys_demo\<lparr>cpunum := 0, kernel_lock := (kernel_lock sys_demo)\<lparr>locked := 0, lock_cpu := None\<rparr>\<rparr>)),
     con = cons_demo, net = nic_demo, ticks = 7\<rparr>"

definition user_frame :: "u32 \<Rightarrow> u32 \<Rightarrow> trapframe" where
  "user_frame trapno eax =
    fresh_tf\<lparr>tf_cs := 0x1B, tf_trapno := trapno, tf_regs := (tf_regs fresh_tf)\<lparr>reg_eax := eax\<rparr>\<rparr>"

lemma trap_demo_lock:
  "cpunum (ks trap_demo) = 0" "ticks trap_demo = 7"
  "\<exists>s. lock_kernel (ks trap_demo) = Some s \<and> cpunum s = 0 \<and> curenv s = Some 0 \<and> env_status (envs s 0) = ENV_RUNNING \<and>
     kinv s \<and> holding 0 (kernel_lock s) \<and> env_id (envs s 0) = env_id (envs sys_demo 0)"
proof -
  have "kinv (ks trap_demo) = kinv sys_demo"
    by (rule kinv_cong) (auto simp: trap_demo_def sys_demo_def started_status)
  then have k: "kinv (ks trap_demo)" using sys_demo_inv(1) by simp
  have "lock_released (ks trap_demo)" by (simp add: trap_demo_def lock_released_def)
  from lock_ok [OF this] obtain s where "lock_kernel (ks trap_demo) = Some s" "holding (cpunum s) (kernel_lock s)"
    "kinv s = kinv (ks trap_demo)" "envs s = envs (ks trap_demo)" "curenv s = curenv (ks trap_demo)" "cpunum s = cpunum (ks trap_demo)"
    by blast
  then show "\<exists>s. lock_kernel (ks trap_demo) = Some s \<and> cpunum s = 0 \<and> curenv s = Some 0 \<and> env_status (envs s 0) = ENV_RUNNING \<and>
     kinv s \<and> holding 0 (kernel_lock s) \<and> env_id (envs s 0) = env_id (envs sys_demo 0)"
    using k by (auto simp: trap_demo_def)
qed (simp_all add: trap_demo_def)






end
