(* ===== verification/User_Syscall.thy ===== *)
theory User_Syscall
  imports Trap
begin

text \<open>
  The system call stubs of the user library, \<^verbatim>\<open>lib/syscall.c\<close>: each puts a call number and up to
  five arguments in registers, executes \<^verbatim>\<open>int T_SYSCALL\<close>, and hands back what the kernel left in
  eax. A stub is the \<open>ucall\<close> that it makes; the stub itself panics when it checks the result and
  the kernel returned a positive number.
\<close>

subsection \<open>Stubs\<close>

record ucall =
  uc_num :: u32
  uc_check :: bool
  uc_a1 :: u32
  uc_a2 :: u32
  uc_a3 :: u32
  uc_a4 :: u32
  uc_a5 :: u32

definition usyscall :: "u32 \<Rightarrow> bool \<Rightarrow> u32 \<Rightarrow> u32 \<Rightarrow> u32 \<Rightarrow> u32 \<Rightarrow> u32 \<Rightarrow> ucall" where
  "usyscall num check a1 a2 a3 a4 a5 =
    \<lparr>uc_num = num, uc_check = check, uc_a1 = a1, uc_a2 = a2, uc_a3 = a3, uc_a4 = a4, uc_a5 = a5\<rparr>"

text \<open>The registers at the trap, and what the stub returns for the kernel's result.\<close>

definition ucall_regs :: "ucall \<Rightarrow> push_regs \<Rightarrow> push_regs" where
  "ucall_regs u r = r\<lparr>reg_eax := uc_num u, reg_edx := uc_a1 u, reg_ecx := uc_a2 u, reg_ebx := uc_a3 u,
     reg_edi := uc_a4 u, reg_esi := uc_a5 u\<rparr>"

definition ucall_result :: "ucall \<Rightarrow> u32 \<Rightarrow> u32 option" where
  "ucall_result u ret = (if uc_check u \<and> 0 < sint ret then None else Some ret)"

definition u_cputs :: "u32 \<Rightarrow> u32 \<Rightarrow> ucall" where
  "u_cputs s len = usyscall 0 False s len 0 0 0"

definition u_cgetc :: ucall where
  "u_cgetc = usyscall 1 False 0 0 0 0 0"

definition u_getenvid :: ucall where
  "u_getenvid = usyscall 2 False 0 0 0 0 0"

definition u_env_destroy :: "u32 \<Rightarrow> ucall" where
  "u_env_destroy envid = usyscall 3 True envid 0 0 0 0"

definition u_yield :: ucall where
  "u_yield = usyscall 4 False 0 0 0 0 0"

definition u_env_set_status :: "u32 \<Rightarrow> u32 \<Rightarrow> ucall" where
  "u_env_set_status envid status = usyscall 6 True envid status 0 0 0"

definition u_page_alloc :: "u32 \<Rightarrow> u32 \<Rightarrow> u32 \<Rightarrow> ucall" where
  "u_page_alloc envid va perm = usyscall 7 True envid va (perm OR PTE_U) 0 0"

definition u_page_map :: "u32 \<Rightarrow> u32 \<Rightarrow> u32 \<Rightarrow> u32 \<Rightarrow> u32 \<Rightarrow> ucall" where
  "u_page_map src_env src_va dst_env dst_va perm = usyscall 8 True src_env src_va dst_env dst_va (perm OR PTE_U)"

definition u_page_unmap :: "u32 \<Rightarrow> u32 \<Rightarrow> ucall" where
  "u_page_unmap envid va = usyscall 9 True envid va 0 0 0"

definition u_env_set_pgfault_upcall :: "u32 \<Rightarrow> u32 \<Rightarrow> ucall" where
  "u_env_set_pgfault_upcall envid upcall = usyscall 10 True envid upcall 0 0 0"

definition u_ipc_try_send :: "u32 \<Rightarrow> u32 \<Rightarrow> u32 \<Rightarrow> u32 \<Rightarrow> ucall" where
  "u_ipc_try_send envid val src_va perm = usyscall 11 False envid val src_va perm 0"

definition u_ipc_recv :: "u32 \<Rightarrow> ucall" where
  "u_ipc_recv dst_va = usyscall 12 True dst_va 0 0 0 0"

definition u_env_set_trapframe :: "u32 \<Rightarrow> u32 \<Rightarrow> ucall" where
  "u_env_set_trapframe envid tf = usyscall 13 True envid tf 0 0 0"

definition u_time_msec :: ucall where
  "u_time_msec = usyscall 14 False 0 0 0 0 0"

definition u_debug_info :: "u32 \<Rightarrow> u32 \<Rightarrow> u32 \<Rightarrow> ucall" where
  "u_debug_info opt buf sz = usyscall 15 False opt buf sz 0 0"

definition u_tx_pkt :: "u32 \<Rightarrow> u32 \<Rightarrow> ucall" where
  "u_tx_pkt content len = usyscall 16 False content len 0 0 0"

definition u_rx_pkt :: "u32 \<Rightarrow> u32 \<Rightarrow> ucall" where
  "u_rx_pkt content len = usyscall 17 False content len 0 0 0"

definition u_chdir :: "u32 \<Rightarrow> ucall" where
  "u_chdir path = usyscall 18 False path 0 0 0 0"

definition u_add_vma :: "u32 \<Rightarrow> u32 \<Rightarrow> u32 \<Rightarrow> u32 \<Rightarrow> ucall" where
  "u_add_vma envid va memsz perm = usyscall 19 False envid va memsz perm 0"

definition u_copy_vma :: "u32 \<Rightarrow> u32 \<Rightarrow> ucall" where
  "u_copy_vma src_env dst_env = usyscall 20 False src_env dst_env 0 0 0"

definition u_env_name :: "u32 \<Rightarrow> u32 \<Rightarrow> ucall" where
  "u_env_name envid nm = usyscall 21 False envid nm 0 0 0"

text \<open>What the kernel's dispatcher does with the registers of a stub.\<close>

definition serve :: "debug_info \<Rightarrow> ucall \<Rightarrow> machine \<Rightarrow> (ctl \<times> machine) option" where
  "serve dbg u m =
    (let r = ucall_regs u (tf_regs fresh_tf) in
     syscall dbg (reg_eax r) (reg_edx r) (reg_ecx r) (reg_ebx r) (reg_edi r) (reg_esi r) m)"


subsection \<open>Stubs and handlers\<close>

lemmas stub_defs = serve_def ucall_regs_def usyscall_def syscall_def u_cputs_def u_cgetc_def u_getenvid_def
  u_env_destroy_def u_yield_def u_env_set_status_def u_page_alloc_def u_page_map_def u_page_unmap_def
  u_env_set_pgfault_upcall_def u_ipc_try_send_def u_ipc_recv_def u_env_set_trapframe_def u_time_msec_def
  u_debug_info_def u_tx_pkt_def u_rx_pkt_def u_chdir_def u_add_vma_def u_copy_vma_def u_env_name_def Let_def


text \<open>\<open>status_only r\<close>: a run that returns to its caller returns 0 or a negative error code.\<close>

definition status_only :: "(ctl \<times> kstate) option \<Rightarrow> bool" where
  "status_only r \<longleftrightarrow> (\<forall>x s. r = Some (Ret x, s) \<longrightarrow> x \<le> 0 \<and> - 18 < x)"

lemma status_onlyI: "(\<And>x s. r = Some (Ret x, s) \<Longrightarrow> x \<le> 0 \<and> - 18 < x) \<Longrightarrow> status_only r"
  by (simp add: status_only_def)

lemma status_onlyD: "status_only r \<Longrightarrow> r = Some (Ret x, s) \<Longrightarrow> x \<le> 0 \<and> - 18 < x"
  by (simp add: status_only_def)

lemma sched_no_ret: "sched_yield s \<noteq> Some (Ret x, s')"
  by (auto simp: sched_yield_def env_run_def sched_halt_def Let_def
      split: option.splits if_splits bind_splits)

lemma envid_status: "envid2env e c s = Some (r, v) \<Longrightarrow> r \<le> 0 \<and> - 18 < r"
  by (auto simp: envid2env_def Let_def split: if_splits bind_splits)

lemma insert_status: "page_insert d p va perm s = Some (r, s') \<Longrightarrow> r \<le> 0 \<and> - 18 < r"
  by (auto simp: page_insert_def Let_def split: option.splits bind_splits prod.splits)

lemma destroy_status: "status_only (env_destroy e s)"
  by (rule status_onlyI) (auto simp: env_destroy_def sched_no_ret split: if_splits bind_splits)

lemma then_ret_status:
  assumes "\<And>s'. status_only (f s')"
  shows "status_only (then_ret r f)"
  using assms by (auto simp: then_ret_def status_only_def split: ctl.splits bind_splits prod.splits)


lemma handler_status:
  "status_only (sys_env_destroy e s)" "status_only (sys_env_set_status e st s)" "status_only (sys_page_alloc e va perm s)"
  "status_only (sys_page_map e va e' va' perm s)" "status_only (sys_page_unmap e va s)"
  "status_only (sys_env_set_pgfault_upcall e va s)" "status_only (sys_ipc_recv va s)"
  "status_only (sys_env_set_trapframe e va s)"
proof -
  have z: "status_only (Some (Ret 0, s'))" for s' by (simp add: status_only_def)
  show "status_only (sys_env_destroy e s)"
    by (auto simp: sys_env_destroy_def status_only_def then_ret_def dest: envid_status split: if_splits bind_splits ctl.splits)
  show "status_only (sys_env_set_status e st s)"
    by (auto simp: sys_env_set_status_def status_only_def split: if_splits bind_splits)
  show "status_only (sys_page_alloc e va perm s)"
    by (auto simp: sys_page_alloc_def status_only_def dest: insert_status split: if_splits bind_splits option.splits)
  show "status_only (sys_page_map e va e' va' perm s)"
    by (auto simp: sys_page_map_def status_only_def dest: insert_status split: if_splits bind_splits option.splits)
  show "status_only (sys_page_unmap e va s)"
    by (auto simp: sys_page_unmap_def status_only_def split: if_splits bind_splits)
  show "status_only (sys_env_set_pgfault_upcall e va s)"
    by (auto simp: sys_env_set_pgfault_upcall_def status_only_def split: if_splits bind_splits)
  show "status_only (sys_ipc_recv va s)"
    by (auto simp: sys_ipc_recv_def status_only_def sched_no_ret split: if_splits bind_splits)
  show "status_only (sys_env_set_trapframe e va s)"
    by (auto simp: sys_env_set_trapframe_def status_only_def then_ret_def Let_def dest: envid_status
        split: if_splits bind_splits ctl.splits)
qed

lemma serve_checked:
  "serve dbg (u_env_destroy a) m = on_ks (sys_env_destroy a) m"
  "serve dbg (u_env_set_status a b) m = on_ks (sys_env_set_status a b) m"
  "serve dbg (u_page_alloc a b c) m = on_ks (sys_page_alloc a b (c OR PTE_U)) m"
  "serve dbg (u_page_map a b c d e) m = on_ks (sys_page_map a b c d (e OR PTE_U)) m"
  "serve dbg (u_page_unmap a b) m = on_ks (sys_page_unmap a b) m"
  "serve dbg (u_env_set_pgfault_upcall a b) m = on_ks (sys_env_set_pgfault_upcall a b) m"
  "serve dbg (u_ipc_recv a) m = on_ks (sys_ipc_recv a) m"
  "serve dbg (u_env_set_trapframe a b) m = on_ks (sys_env_set_trapframe a b) m"
  by (simp_all add: stub_defs)

text \<open>C38: a stub that checks its result never panics. Whatever the arguments and the state, each of the
  checked calls that returns gives 0 or a negative error code that the library can print.\<close>

theorem checked_calls_status:
  assumes "u \<in> {u_env_destroy a, u_env_set_status a b, u_page_alloc a b c, u_page_map a b c d e, u_page_unmap a b,
      u_env_set_pgfault_upcall a b, u_ipc_recv a, u_env_set_trapframe a b}"
    and "serve dbg u m = Some (Ret r, m')"
  shows "- 18 < r \<and> r \<le> 0 \<and> ucall_result u (word_of_int r) = Some (word_of_int r)"
proof -
  have "\<exists>h. serve dbg u m = on_ks h m \<and> (\<forall>s. status_only (h s))"
    using assms(1) by (elim insertE emptyE) (simp_all only: serve_checked, (rule exI, rule conjI, rule refl, simp only: handler_status simp_thms)+)
  then obtain h where h: "serve dbg u m = on_ks h m" "\<And>s. status_only (h s)" by blast
  have "- 18 < r \<and> r \<le> 0" using h(1) status_onlyD [OF h(2) [of "ks m"], of r] assms(2)
    by (auto simp: on_ks_def split: bind_splits)
  moreover from this have "signed_take_bit 31 r = r" by (intro signed_take_bit_int_eq_self) auto
  ultimately show ?thesis by (simp add: ucall_result_def sint_sbintrunc')
qed

theorem checked_calls_status_witness:
  "serve (\<lambda>_ _ _ m. None) (u_page_alloc 0 1 7) trap_demo = Some (Ret (- 3), trap_demo) \<and>
   ucall_result (u_page_alloc 0 1 7) (word_of_int (- 3)) = Some (word_of_int (- 3))"
proof -
  have "curenv (ks trap_demo) = Some 0" by (simp add: trap_demo_def)
  then have "serve (\<lambda>_ _ _ m. None) (u_page_alloc 0 1 7) trap_demo = Some (Ret (- 3), trap_demo)"
    by (simp add: stub_defs on_ks_def sys_page_alloc_def envid2env_def bad_va_def)
  with checked_calls_status [of "u_page_alloc 0 1 7" 0 1 7] show ?thesis by blast
qed

end
