(* ===== verification/Lib_String.thy ===== *)
theory Lib_String
  imports Prelude
begin

text \<open>
  The string routines of \<^verbatim>\<open>lib/string.c\<close>, which the kernel, the file server and the user programs
  share. Memory is a map from 32-bit addresses to bytes, and addresses wrap around.

  A loop that runs until it meets a terminator is a partial function: it has the value \<open>None\<close>
  where the C loop would walk the address space for ever. A loop with a count is total. The
  string instructions of the assembly versions of \<^verbatim>\<open>memset\<close> and \<^verbatim>\<open>memmove\<close> (the file sets
  \<^verbatim>\<open>ASM\<close> to 1) are \<open>rep_stos\<close> and \<open>rep_movs\<close>, with the direction flag as an argument. A null
  result is the address 0.
\<close>

type_synonym bmem = "u32 \<Rightarrow> u8"

subsection \<open>Strings\<close>

partial_function (option) strlen_loop :: "bmem \<Rightarrow> u32 \<Rightarrow> u32 \<Rightarrow> u32 option" where
  "strlen_loop m s n = (if m s \<noteq> 0 then strlen_loop m (s + 1) (n + 1) else Some n)"

definition strlen :: "bmem \<Rightarrow> u32 \<Rightarrow> u32 option" where
  "strlen m s = strlen_loop m s 0"

fun strnlen_loop :: "bmem \<Rightarrow> u32 \<Rightarrow> nat \<Rightarrow> u32 \<Rightarrow> u32" where
  "strnlen_loop m s 0 n = n"
| "strnlen_loop m s (Suc k) n = (if m s \<noteq> 0 then strnlen_loop m (s + 1) k (n + 1) else n)"

definition strnlen :: "bmem \<Rightarrow> u32 \<Rightarrow> u32 \<Rightarrow> u32" where
  "strnlen m s sz = strnlen_loop m s (unat sz) 0"

partial_function (option) strcpy :: "u32 \<Rightarrow> u32 \<Rightarrow> bmem \<Rightarrow> bmem option" where
  "strcpy dst src m =
    (let c = m src; m' = m(dst := c) in
     if c \<noteq> 0 then strcpy (dst + 1) (src + 1) m' else Some m')"

definition strcat :: "u32 \<Rightarrow> u32 \<Rightarrow> bmem \<Rightarrow> bmem option" where
  "strcat dst src m = do { n \<leftarrow> strlen m dst; strcpy (dst + n) src m }"

fun strncpy_loop :: "nat \<Rightarrow> u32 \<Rightarrow> u32 \<Rightarrow> bmem \<Rightarrow> bmem" where
  "strncpy_loop 0 dst src m = m"
| "strncpy_loop (Suc k) dst src m =
    (let m' = m(dst := m src) in strncpy_loop k (dst + 1) (if m' src \<noteq> 0 then src + 1 else src) m')"

definition strncpy :: "u32 \<Rightarrow> u32 \<Rightarrow> u32 \<Rightarrow> bmem \<Rightarrow> bmem" where
  "strncpy dst src sz m = strncpy_loop (unat sz) dst src m"

definition byte_diff :: "u8 \<Rightarrow> u8 \<Rightarrow> int" where
  "byte_diff x y = uint x - uint y"

partial_function (option) strcmp :: "bmem \<Rightarrow> u32 \<Rightarrow> u32 \<Rightarrow> int option" where
  "strcmp m p q =
    (if m p \<noteq> 0 \<and> m p = m q then strcmp m (p + 1) (q + 1) else Some (byte_diff (m p) (m q)))"

fun strncmp_loop :: "bmem \<Rightarrow> u32 \<Rightarrow> u32 \<Rightarrow> nat \<Rightarrow> int" where
  "strncmp_loop m p q 0 = 0"
| "strncmp_loop m p q (Suc k) =
    (if m p \<noteq> 0 \<and> m p = m q then strncmp_loop m (p + 1) (q + 1) k else byte_diff (m p) (m q))"

definition strncmp :: "bmem \<Rightarrow> u32 \<Rightarrow> u32 \<Rightarrow> u32 \<Rightarrow> int" where
  "strncmp m p q n = strncmp_loop m p q (unat n)"

partial_function (option) strchr :: "bmem \<Rightarrow> u32 \<Rightarrow> u8 \<Rightarrow> u32 option" where
  "strchr m s c = (if m s = 0 then Some 0 else if m s = c then Some s else strchr m (s + 1) c)"

partial_function (option) strfind :: "bmem \<Rightarrow> u32 \<Rightarrow> u8 \<Rightarrow> u32 option" where
  "strfind m s c = (if m s = 0 \<or> m s = c then Some s else strfind m (s + 1) c)"

subsection \<open>Blocks of memory\<close>

text \<open>\<open>copy_bytes d s w\<close> loads \<open>w\<close> bytes and then stores them, as one string instruction does for an element.\<close>

definition copy_bytes :: "u32 \<Rightarrow> u32 \<Rightarrow> nat \<Rightarrow> bmem \<Rightarrow> bmem" where
  "copy_bytes d s w m = (\<lambda>a. if unat (a - d) < w then m (s + (a - d)) else m a)"

definition store_bytes :: "u32 \<Rightarrow> u32 \<Rightarrow> nat \<Rightarrow> bmem \<Rightarrow> bmem" where
  "store_bytes d v w m = (\<lambda>a. if unat (a - d) < w then ucast (drop_bit (8 * unat (a - d)) v) else m a)"

fun rep_stos :: "nat \<Rightarrow> nat \<Rightarrow> u32 \<Rightarrow> u32 \<Rightarrow> bmem \<Rightarrow> bmem" where
  "rep_stos w 0 d v m = m"
| "rep_stos w (Suc k) d v m = rep_stos w k (d + of_nat w) v (store_bytes d v w m)"

fun rep_movs :: "nat \<Rightarrow> bool \<Rightarrow> nat \<Rightarrow> u32 \<Rightarrow> u32 \<Rightarrow> bmem \<Rightarrow> bmem" where
  "rep_movs w df 0 d s m = m"
| "rep_movs w df (Suc k) d s m =
    (let m' = copy_bytes d s w m in
     if df then rep_movs w df k (d - of_nat w) (s - of_nat w) m'
     else rep_movs w df k (d + of_nat w) (s + of_nat w) m')"

definition memset :: "u32 \<Rightarrow> u32 \<Rightarrow> u32 \<Rightarrow> bmem \<Rightarrow> bmem" where
  "memset v c n m =
    (if n = 0 then m
     else if v mod 4 = 0 \<and> n mod 4 = 0 then
       (let c = c AND 0xFF; c = push_bit 24 c OR push_bit 16 c OR push_bit 8 c OR c in
        rep_stos 4 (unat (n div 4)) v c m)
     else rep_stos 1 (unat n) v c m)"

definition memmove :: "u32 \<Rightarrow> u32 \<Rightarrow> u32 \<Rightarrow> bmem \<Rightarrow> bmem" where
  "memmove dst src n m =
    (if src < dst \<and> src + n > dst then
       (let s = src + n; d = dst + n in
        if s mod 4 = 0 \<and> d mod 4 = 0 \<and> n mod 4 = 0
        then rep_movs 4 True (unat (n div 4)) (d - 4) (s - 4) m
        else rep_movs 1 True (unat n) (d - 1) (s - 1) m)
     else if src mod 4 = 0 \<and> dst mod 4 = 0 \<and> n mod 4 = 0
       then rep_movs 4 False (unat (n div 4)) dst src m
       else rep_movs 1 False (unat n) dst src m)"

definition memcpy :: "u32 \<Rightarrow> u32 \<Rightarrow> u32 \<Rightarrow> bmem \<Rightarrow> bmem" where
  "memcpy dst src n m = memmove dst src n m"

fun memcmp_loop :: "bmem \<Rightarrow> u32 \<Rightarrow> u32 \<Rightarrow> nat \<Rightarrow> int" where
  "memcmp_loop m p q 0 = 0"
| "memcmp_loop m p q (Suc k) =
    (if m p \<noteq> m q then byte_diff (m p) (m q) else memcmp_loop m (p + 1) (q + 1) k)"

definition memcmp :: "bmem \<Rightarrow> u32 \<Rightarrow> u32 \<Rightarrow> u32 \<Rightarrow> int" where
  "memcmp m v1 v2 n = memcmp_loop m v1 v2 (unat n)"

text \<open>The loop of \<^verbatim>\<open>memfind\<close> runs while the pointer is below the end, which wraps.\<close>

fun memfind_loop :: "bmem \<Rightarrow> nat \<Rightarrow> u32 \<Rightarrow> u8 \<Rightarrow> u32" where
  "memfind_loop m 0 s c = s"
| "memfind_loop m (Suc k) s c = (if m s = c then s else memfind_loop m k (s + 1) c)"

definition memfind :: "bmem \<Rightarrow> u32 \<Rightarrow> u32 \<Rightarrow> u32 \<Rightarrow> u32" where
  "memfind m s c n = memfind_loop m (unat (s + n) - unat s) s (ucast c)"

subsection \<open>Numbers\<close>

partial_function (option) skip_blanks :: "bmem \<Rightarrow> u32 \<Rightarrow> u32 option" where
  "skip_blanks m s = (if m s = 32 \<or> m s = 9 then skip_blanks m (s + 1) else Some s)"

definition digit_of :: "u8 \<Rightarrow> u32 option" where
  "digit_of c =
    (if 48 \<le> c \<and> c \<le> 57 then Some (ucast c - 48)
     else if 97 \<le> c \<and> c \<le> 122 then Some (ucast c - 97 + 10)
     else if 65 \<le> c \<and> c \<le> 90 then Some (ucast c - 65 + 10)
     else None)"

partial_function (option) strtol_digits :: "bmem \<Rightarrow> u32 \<Rightarrow> u32 \<Rightarrow> u32 \<Rightarrow> (u32 \<times> u32) option" where
  "strtol_digits m base s val =
    (case digit_of (m s) of
       None \<Rightarrow> Some (val, s)
     | Some dig \<Rightarrow> if sint base \<le> sint dig then Some (val, s)
         else strtol_digits m base (s + 1) (val * base + dig))"

definition strtol_sign :: "bmem \<Rightarrow> u32 \<Rightarrow> u32 \<times> bool" where
  "strtol_sign m s = (if m s = 43 then (s + 1, False) else if m s = 45 then (s + 1, True) else (s, False))"

definition strtol_base :: "bmem \<Rightarrow> u32 \<Rightarrow> u32 \<Rightarrow> u32 \<times> u32" where
  "strtol_base m s base =
    (if (base = 0 \<or> base = 16) \<and> m s = 48 \<and> m (s + 1) = 120 then (s + 2, 16)
     else if base = 0 \<and> m s = 48 then (s + 1, 8)
     else if base = 0 then (s, 10)
     else (s, base))"

text \<open>The result is the value and the end pointer.\<close>

definition strtol :: "bmem \<Rightarrow> u32 \<Rightarrow> u32 \<Rightarrow> (u32 \<times> u32) option" where
  "strtol m s base = do {
     s \<leftarrow> skip_blanks m s;
     let (s, neg) = strtol_sign m s;
     let (s, base) = strtol_base m s base;
     (val, s) \<leftarrow> strtol_digits m base s 0;
     Some (if neg then - val else val, s)
   }"

subsection \<open>Facts on strings\<close>

text \<open>\<open>cstr m s bs\<close>: the terminated string at \<open>s\<close> has the bytes \<open>bs\<close>.\<close>

fun cstr :: "bmem \<Rightarrow> u32 \<Rightarrow> u8 list \<Rightarrow> bool" where
  "cstr m s [] \<longleftrightarrow> m s = 0"
| "cstr m s (b # bs) \<longleftrightarrow> b \<noteq> 0 \<and> m s = b \<and> cstr m (s + 1) bs"

lemma strlen_loop_cstr: "cstr m s bs \<Longrightarrow> strlen_loop m s n = Some (n + of_nat (length bs))"
  by (induction bs arbitrary: s n) (simp_all add: strlen_loop.simps)

lemma strlen_cstr: "cstr m s bs \<Longrightarrow> strlen m s = Some (of_nat (length bs))"
  by (simp add: strlen_def strlen_loop_cstr)

lemma cstr_cong:
  "(\<And>i. i \<le> length bs \<Longrightarrow> m' (s + of_nat i) = m (s + of_nat i)) \<Longrightarrow> cstr m' s bs = cstr m s bs"
proof (induction bs arbitrary: s)
  case (Cons b bs)
  have "m' s = m s" using Cons.prems [of 0] by simp
  moreover have "cstr m' (s + 1) bs = cstr m (s + 1) bs"
    using Cons.prems [of "Suc _"] by (intro Cons.IH) (simp add: add.assoc)
  ultimately show ?case by simp
qed simp

lemma byte_diff_eq_0: "byte_diff x y = 0 \<longleftrightarrow> x = y"
  by (simp add: byte_diff_def word_uint_eq_iff)

lemma strcmp_cstr_same: "cstr m p bs \<Longrightarrow> cstr m q bs \<Longrightarrow> strcmp m p q = Some 0"
  by (induction bs arbitrary: p q) (simp_all add: strcmp.simps byte_diff_def)

text \<open>Two terminated strings compare equal exactly when they are equal.\<close>

lemma strcmp_cstr:
  "cstr m p as \<Longrightarrow> cstr m q bs \<Longrightarrow> \<exists>d. strcmp m p q = Some d \<and> (d = 0 \<longleftrightarrow> as = bs)"
proof (induction as arbitrary: p q bs)
  case Nil
  then show ?case by (cases bs) (auto simp: strcmp.simps byte_diff_eq_0)
next
  case (Cons a as)
  show ?case
  proof (cases bs)
    case Nil
    with Cons.prems show ?thesis by (auto simp: strcmp.simps byte_diff_eq_0)
  next
    case (Cons b bs')
    with Cons.prems Cons.IH [of "p + 1" "q + 1" bs'] show ?thesis
      by (auto simp: strcmp.simps [of m p q] byte_diff_eq_0)
  qed
qed

subsection \<open>Copies in pieces\<close>

lemma unat_minus: "unat (x - y :: u32) = (if unat y \<le> unat x then unat x - unat y else unat x + 2 ^ 32 - unat y)"
  by (simp add: unat_sub_if')

lemma unat_shift:
  assumes "j < 2 ^ 32"
  shows "unat (a - (d + of_nat j) :: u32) = (if j \<le> unat (a - d) then unat (a - d) - j else unat (a - d) + 2 ^ 32 - j)"
proof -
  have "a - (d + of_nat j) = (a - d) - of_nat j" by (simp only: diff_diff_eq)
  then show ?thesis using assms by (simp only: unat_minus [of "a - d"] unat_of_nat_u32)
qed

lemma copy_split_up:
  assumes "d = s \<or> j + c \<le> unat (d - s)" "j + c < 2 ^ 32"
  shows "copy_bytes (d + of_nat j) (s + of_nat j) c (copy_bytes d s j m) = copy_bytes d s (j + c) m"
proof
  fix a
  have j: "j < 2 ^ 32" using assms(2) by simp
  have e: "s + of_nat j + (a - (d + of_nat j)) = s + (a - d)" by simp
  have "j \<le> unat (s + (a - d) - d)" if "j \<le> unat (a - d)" "unat (a - d) < j + c"
  proof (cases "d = s")
    case False
    have "s + (a - d) - d = (a - d) - (d - s)" by simp
    moreover have "\<not> unat (d - s) \<le> unat (a - d)" using False assms(1) that by linarith
    ultimately have "unat (s + (a - d) - d) = unat (a - d) + 2 ^ 32 - unat (d - s)"
      by (simp only: unat_minus [of "a - d" "d - s"] if_False)
    then show ?thesis using that unat_less_2p32 [of "d - s"] by simp
  qed (use that in simp)
  then show "copy_bytes (d + of_nat j) (s + of_nat j) c (copy_bytes d s j m) a = copy_bytes d s (j + c) m a"
    using assms(2) by (auto simp: copy_bytes_def unat_shift [OF j] e)
qed

lemma copy_split_down:
  assumes "d = s \<or> c + j \<le> unat (s - d)" "c + j < 2 ^ 32"
  shows "copy_bytes d s c (copy_bytes (d + of_nat c) (s + of_nat c) j m) = copy_bytes d s (c + j) m"
proof
  fix a
  have c: "c < 2 ^ 32" using assms(2) by simp
  have e: "s + of_nat c + (a - (d + of_nat c)) = s + (a - d)" by simp
  have f: "j \<le> unat (s + (a - d) - (d + of_nat c))" if "unat (a - d) < c"
  proof (cases "d = s")
    case True
    then show ?thesis using that assms(2) unat_shift [OF c, of a d] by simp
  next
    case False
    have r: "s + (a - d) - (d + of_nat c) = (s - d) - (of_nat c - (a - d))" by simp
    have u: "unat (of_nat c - (a - d)) = c - unat (a - d)" using that c by (simp only: unat_minus [of "of_nat c"] unat_of_nat_u32) simp
    have "c - unat (a - d) \<le> unat (s - d)" using False assms(1) by linarith
    then have "unat (s + (a - d) - (d + of_nat c)) = unat (s - d) - (c - unat (a - d))"
      by (simp only: r unat_minus [of "s - d" "of_nat c - (a - d)"] u if_True)
    then show ?thesis using False assms(1) that by simp
  qed
  show "copy_bytes d s c (copy_bytes (d + of_nat c) (s + of_nat c) j m) a = copy_bytes d s (c + j) m a"
  proof (cases "unat (a - d) < c")
    case True
    then have "\<not> unat (s + (a - d) - (d + of_nat c)) < j" using f by (simp only: not_less)
    with True show ?thesis by (simp only: copy_bytes_def if_True if_False) simp
  next
    case False
    then show ?thesis using assms(2) by (auto simp: copy_bytes_def unat_shift [OF c] e)
  qed
qed

lemma copy_one: "copy_bytes d s 1 m = m(d := m s)"
  by (rule ext) (auto simp: copy_bytes_def unat_eq_0)

lemma copy_none: "copy_bytes d s 0 m = m"
  by (simp add: copy_bytes_def)

lemma rep_movs_up:
  assumes "d = s \<or> w * k \<le> unat (d - s)" "w * k < 2 ^ 32"
  shows "rep_movs w False k d s m = copy_bytes d s (w * k) m"
  using assms
proof (induction k arbitrary: d s m)
  case (Suc k)
  have "rep_movs w False k (d + of_nat w) (s + of_nat w) (copy_bytes d s w m) =
    copy_bytes (d + of_nat w) (s + of_nat w) (w * k) (copy_bytes d s w m)"
    using Suc.prems by (intro Suc.IH) auto
  with copy_split_up [of d s w "w * k"] Suc.prems show ?case by simp
qed (simp add: copy_none)

lemma rep_movs_down:
  assumes "d = s \<or> w * k \<le> unat (s - d)" "w * k < 2 ^ 32"
  shows "rep_movs w True k (d + of_nat (w * k) - of_nat w) (s + of_nat (w * k) - of_nat w) m = copy_bytes d s (w * k) m"
  using assms
proof (induction k arbitrary: m)
  case (Suc k)
  let ?m = "copy_bytes (d + of_nat (w * k)) (s + of_nat (w * k)) w m"
  have "rep_movs w True k (d + of_nat (w * k) - of_nat w) (s + of_nat (w * k) - of_nat w) ?m = copy_bytes d s (w * k) ?m"
    using Suc.prems by (intro Suc.IH) auto
  with copy_split_down [of d s "w * k" w] Suc.prems show ?case by (simp add: add.commute)
qed (simp add: copy_none)

lemma strcpy_cstr:
  assumes "cstr m src bs" "length bs < unat (dst - src)" "length bs < unat (src - dst)"
  shows "strcpy dst src m = Some (copy_bytes dst src (Suc (length bs)) m)"
  using assms
proof (induction bs arbitrary: dst src m)
  case Nil
  then show ?case by (auto simp: strcpy.simps copy_bytes_def unat_eq_0)
next
  case (Cons b bs)
  let ?m = "m(dst := b)"
  have len: "Suc (length bs) < unat (dst - src)" "Suc (length bs) < unat (src - dst)" using Cons.prems by simp_all
  have "cstr ?m (src + 1) bs"
  proof (subst cstr_cong [where m = m])
    fix i assume "i \<le> length bs"
    then have "src + 1 + of_nat i \<noteq> dst"
    proof (rule_tac notI)
      assume "src + 1 + of_nat i = dst"
      then have "dst - src = of_nat (Suc i)" by (auto simp: algebra_simps)
      then have "unat (dst - src) \<le> Suc i" by (simp add: unat_of_nat take_bit_nat_def del: of_nat_Suc)
      with len(1) \<open>i \<le> length bs\<close> show False by simp
    qed
    then show "?m (src + 1 + of_nat i) = m (src + 1 + of_nat i)" by simp
  qed (use Cons.prems in simp)
  then have "strcpy (dst + 1) (src + 1) ?m = Some (copy_bytes (dst + 1) (src + 1) (Suc (length bs)) ?m)"
    using len by (intro Cons.IH) (simp_all del: fun_upd_apply)
  moreover have "copy_bytes (dst + 1) (src + 1) (Suc (length bs)) ?m = copy_bytes dst src (Suc (length (b # bs))) m"
    using copy_split_up [of dst src 1 "Suc (length bs)" m] len Cons.prems unat_less_2p32 [of "dst - src"]
    by (simp add: copy_one [simplified])
  ultimately show ?case using Cons.prems by (simp add: strcpy.simps [of dst] Let_def del: fun_upd_apply)
qed


subsection \<open>What the routines compute\<close>

lemma four_dvd:
  assumes "4 dvd (x :: u32)"
  shows "4 * unat (x div 4) = unat x" "4 * (x div 4) = x"
proof -
  obtain k where "x = 4 * k" using assms by (auto simp: dvd_def)
  then have "unat x = 4 * unat k mod 2 ^ 32" by (simp add: unat_word_ariths)
  then have "4 dvd unat x" by (simp add: dvd_mod)
  then show u: "4 * unat (x div 4) = unat x" by (simp add: unat_div)
  have "unat (4 * (x div 4)) = 4 * unat (x div 4)" using u unat_less_2p32 [of x] by (simp add: unat_word_ariths)
  with u show "4 * (x div 4) = x" by (intro word_unat_eqI) simp
qed

text \<open>A value all of whose low \<open>w\<close> bytes are \<open>b\<close> fills the block with \<open>b\<close>.\<close>

lemma rep_stos_fill:
  assumes "\<And>i. i < w \<Longrightarrow> ucast (drop_bit (8 * i) v) = (b :: u8)" "w * k < 2 ^ 32"
  shows "rep_stos w k d v m = (\<lambda>a. if unat (a - d) < w * k then b else m a)"
  using assms(2)
proof (induction k arbitrary: d m)
  case (Suc k)
  have "w < 2 ^ 32" using Suc.prems by simp
  then show ?case
    using Suc assms(1) by (auto simp: fun_eq_iff store_bytes_def unat_shift)
qed simp

definition splat :: "u32 \<Rightarrow> u32" where
  "splat c = push_bit 24 (take_bit 8 c) OR push_bit 16 (take_bit 8 c) OR push_bit 8 (take_bit 8 c) OR take_bit 8 c"

lemma splat_byte:
  assumes "i < 4"
  shows "ucast (drop_bit (8 * i) (splat c)) = (ucast c :: u8)"
proof -
  have "i = 0 \<or> i = 1 \<or> i = 2 \<or> i = 3" using assms by auto
  then show ?thesis by (elim disjE) (auto intro!: bit_word_eqI simp: bit_simps splat_def)
qed

lemma memset_eq: "memset v c n m = (\<lambda>a. if unat (a - v) < unat n then ucast c else m a)"
proof -
  have n: "unat n < 2 ^ 32" by (rule unat_less_2p32)
  have "(let c = c AND 0xFF in push_bit 24 c OR push_bit 16 c OR push_bit 8 c OR c) = splat c"
    by (simp add: splat_def take_bit_eq_mask mask_numeral Let_def)
  then have m: "memset v c n m = (if n = 0 then m else if v mod 4 = 0 \<and> n mod 4 = 0
      then rep_stos 4 (unat (n div 4)) v (splat c) m else rep_stos 1 (unat n) v c m)"
    by (simp add: memset_def Let_def)
  have "rep_stos 4 (unat (n div 4)) v (splat c) m = (\<lambda>a. if unat (a - v) < unat n then ucast c else m a)" if "4 dvd n"
    using rep_stos_fill [of 4 "splat c" "ucast c" "unat (n div 4)" v m] splat_byte four_dvd(1) [OF that] n by simp
  moreover have "rep_stos 1 (unat n) v c m = (\<lambda>a. if unat (a - v) < unat n then ucast c else m a)"
    using rep_stos_fill [of 1 c "ucast c" "unat n" v m] n by simp
  ultimately show ?thesis unfolding m by auto
qed

text \<open>C30: \<^verbatim>\<open>memmove\<close>, with its backward copy and its four-byte fast paths, is the copy through a
  temporary buffer, however the two blocks overlap, as long as neither runs over the end of
  the address space.\<close>

theorem memmove_is_copy:
  assumes "unat src + unat n < 2 ^ 32" "unat dst + unat n < 2 ^ 32"
  shows "memmove dst src n m = (\<lambda>a. if unat (a - dst) < unat n then m (src + (a - dst)) else m a)"
proof -
  have n: "1 * unat n = unat n" "unat n < 2 ^ 32" by (simp, rule unat_less_2p32)
  note q = four_dvd [of n]
  have "memmove dst src n m = copy_bytes dst src (unat n) m"
  proof (cases "src < dst \<and> src + n > dst")
    case True
    then have "unat n \<le> unat (src - dst)" using assms(2) by (simp add: unat_minus word_less_nat_alt)
    with True show ?thesis
      using rep_movs_down [of dst src 4 "unat (n div 4)" m] rep_movs_down [of dst src 1 "unat n" m] q n(2)
      by (auto simp: memmove_def Let_def)
  next
    case False
    then have "dst = src \<or> unat n \<le> unat (dst - src)"
      using assms by (auto simp: unat_minus word_less_nat_alt unat_add_no_wrap word_unat_eq_iff)
    with False show ?thesis
      using rep_movs_up [of dst src 4 "unat (n div 4)" m] rep_movs_up [of dst src 1 "unat n" m] q n(2)
      by (auto simp: memmove_def)
  qed
  then show ?thesis by (simp add: copy_bytes_def)
qed

theorem memmove_is_copy_witness:
  "memmove 0x1002 0x1000 6 (\<lambda>a. ucast a) 0x1007 = 5 \<and> memmove 0x1000 0x1004 8 (\<lambda>a. ucast a) 0x1003 = 7"
  using memmove_is_copy [of "0x1000" 6 "0x1002" "\<lambda>a. ucast a"] memmove_is_copy [of "0x1004" 8 "0x1000" "\<lambda>a. ucast a"]
  by simp

text \<open>C31: copying a string of \<open>n\<close> characters to a place more than \<open>n\<close> bytes away in either direction
  ends, leaves the same string at both places, so that \<^verbatim>\<open>strcmp\<close> of them is 0 and \<^verbatim>\<open>strlen\<close> of
  the copy is \<open>n\<close>, and changes no byte outside the \<open>n + 1\<close> of the copy.\<close>

theorem strcpy_strcmp:
  assumes "cstr m src bs" "length bs < unat (dst - src)" "length bs < unat (src - dst)"
  shows "\<exists>m'. strcpy dst src m = Some m' \<and> cstr m' src bs \<and> cstr m' dst bs \<and> strcmp m' dst src = Some 0 \<and>
    strlen m' dst = Some (of_nat (length bs)) \<and> (\<forall>a. length bs < unat (a - dst) \<longrightarrow> m' a = m a)"
proof -
  let ?m = "copy_bytes dst src (Suc (length bs)) m"
  have small: "unat (of_nat i :: u32) = i" if "i \<le> length bs" for i
    using that assms(2) unat_less_2p32 [of "dst - src"] by simp
  have "cstr ?m src bs = cstr m src bs"
  proof (rule cstr_cong)
    fix i assume i: "i \<le> length bs"
    have "unat (src + of_nat i - dst) = unat (of_nat i - (dst - src))" by (rule arg_cong [where f = unat]) simp
    also have "\<dots> = i + 2 ^ 32 - unat (dst - src)" using i assms(2) by (simp only: unat_minus [of "of_nat i"] small) simp
    also have "\<dots> > length bs"
    proof -
      have "dst - src \<noteq> 0" using assms(2) by auto
      then have "unat (- (dst - src)) = 2 ^ 32 - unat (dst - src)" using unat_minus [of 0 "dst - src"] by (simp add: unat_eq_0)
      then have "unat (src - dst) = 2 ^ 32 - unat (dst - src)" by simp
      then show ?thesis using assms(3) by simp
    qed
    finally show "?m (src + of_nat i) = m (src + of_nat i)" by (simp add: copy_bytes_def)
  qed
  with assms(1) have s: "cstr ?m src bs" by simp
  have "cstr ?m dst bs"
  proof -
    have "cstr m (src + of_nat k) cs \<Longrightarrow> k + length cs \<le> length bs \<Longrightarrow> cstr ?m (dst + of_nat k) cs" for k cs
    proof (induction cs arbitrary: k)
      case Nil
      then show ?case using small [of k] by (simp add: copy_bytes_def)
    next
      case (Cons c cs)
      then show ?case using small [of k] Cons.IH [of "Suc k"] by (simp add: copy_bytes_def add.assoc add.commute [of 1])
    qed
    from this [of 0 bs] assms(1) show ?thesis by simp
  qed
  with s show ?thesis using strcpy_cstr [OF assms] strcmp_cstr_same strlen_cstr by (auto simp: copy_bytes_def)
qed

definition hello_mem :: bmem where
  "hello_mem = (\<lambda>a. if a = 0x100 then 104 else if a = 0x101 then 105 else 0)"

theorem strcpy_strcmp_witness:
  "\<exists>m'. strcpy 0x200 0x100 hello_mem = Some m' \<and> cstr m' 0x200 [104, 105] \<and> strcmp m' 0x200 0x100 = Some 0"
proof -
  have "cstr hello_mem 0x100 [104, 105]" by (simp add: hello_mem_def)
  from strcpy_strcmp [OF this, of "0x200"] show ?thesis by (auto simp: unat_minus)
qed

end
