(* ===== verification/Lib_Print.thy ===== *)
theory Lib_Print
  imports Lib_String
begin

text \<open>
  Formatted output, \<^verbatim>\<open>lib/printfmt.c\<close>. The formatting code hands characters one after the other
  to a function that the caller gives; the model returns the list of them. The variable
  arguments are the words of the caller's stack frame, a \<^verbatim>\<open>long long\<close> or a \<^verbatim>\<open>double\<close> taking two,
  low word first; running out of them is \<open>None\<close>. Field widths are mathematical integers.

  The \<^verbatim>\<open>%f\<close> conversion needs floating point: \<^verbatim>\<open>printdouble\<close> with the sign test around it is the
  argument \<open>pd\<close> of the definitions, from the two words of the double, the width, the precision and
  the padding character to the characters printed.

  \<^verbatim>\<open>vsnprintf\<close> formats from the memory as it was at the call, so the strings it prints must not
  lie in the buffer it fills.
\<close>

subsection \<open>Error messages\<close>

definition chars :: "string \<Rightarrow> u8 list" where
  "chars xs = map (\<lambda>c. of_nat (of_char c)) xs"

abbreviation (input) MAXERROR :: int where "MAXERROR \<equiv> 18"

definition error_string :: "int \<Rightarrow> string option" where
  "error_string e =
    (if e = 1 then Some ''unspecified error''
     else if e = 2 then Some ''bad environment''
     else if e = 3 then Some ''invalid parameter''
     else if e = 4 then Some ''out of memory''
     else if e = 5 then Some ''out of environments''
     else if e = 6 then Some ''segmentation fault''
     else if e = 7 then Some ''env is not recving''
     else if e = 8 then Some ''unexpected end of file''
     else if e = 9 then Some ''no free space on disk''
     else if e = 10 then Some ''too many files are open''
     else if e = 11 then Some ''file or block not found''
     else if e = 12 then Some ''invalid path''
     else if e = 13 then Some ''file already exists''
     else if e = 14 then Some ''file is not a valid executable''
     else if e = 15 then Some ''operation not supported''
     else if e = 16 then Some ''device busy''
     else if e = 17 then Some ''bad HTTP request''
     else None)"

subsection \<open>Numbers\<close>

definition digit_char :: "bool \<Rightarrow> nat \<Rightarrow> u8" where
  "digit_char upper d = (if \<not> upper then chars ''0123456789abcdef'' ! d else chars ''0123456789ABCDEF'' ! d)"

definition pad :: "int \<Rightarrow> u8 \<Rightarrow> u8 list" where
  "pad width padc = (if padc \<noteq> 45 then replicate (nat (width - 1)) padc else [])"

lemma div_smaller:
  assumes "(2 :: u64) \<le> base" "base \<le> num"
  shows "unat (num div base) < unat num"
proof -
  have "2 \<le> unat base" "unat base \<le> unat num" using assms by (simp_all add: word_le_nat_alt)
  then show ?thesis by (simp add: unat_div)
qed

text \<open>The characters and their number. Base 0 or 1 recurses for ever, and there are 16 digits.\<close>

function printnum :: "u64 \<Rightarrow> u64 \<Rightarrow> int \<Rightarrow> u8 \<Rightarrow> bool \<Rightarrow> (u8 list \<times> int) option" where
  "printnum num base width padc upper =
    (if base < 2 \<or> 16 < base then None
     else if base \<le> num then do {
       (out, w) \<leftarrow> printnum (num div base) base (width - 1) padc upper;
       Some (out @ [digit_char upper (unat (num mod base))], w + 1)
     }
     else (let p = pad width padc in Some (p @ [digit_char upper (unat (num mod base))], int (length p) + 1)))"
  by pat_completeness auto
termination
  by (relation "measure (\<lambda>(num, base, width, padc, upper). unat num)") (auto intro: div_smaller)

declare printnum.simps [simp del]

subsection \<open>Arguments\<close>

fun va32 :: "u32 list \<Rightarrow> (u32 \<times> u32 list) option" where
  "va32 [] = None"
| "va32 (w # ap) = Some (w, ap)"

definition va64 :: "u32 list \<Rightarrow> (u64 \<times> u32 list) option" where
  "va64 ap = do { (lo, ap) \<leftarrow> va32 ap; (hi, ap) \<leftarrow> va32 ap; Some (ucast lo OR push_bit 32 (ucast hi), ap) }"

definition getuint :: "u32 list \<Rightarrow> nat \<Rightarrow> (u64 \<times> u32 list) option" where
  "getuint ap lflag = (if 2 \<le> lflag then va64 ap else do { (w, ap) \<leftarrow> va32 ap; Some (ucast w, ap) })"

definition getint :: "u32 list \<Rightarrow> nat \<Rightarrow> (u64 \<times> u32 list) option" where
  "getint ap lflag = (if 2 \<le> lflag then va64 ap else do { (w, ap) \<leftarrow> va32 ap; Some (scast w, ap) })"

subsection \<open>Conversions\<close>

record fspec =
  f_padc :: u8
  f_width :: int
  f_precision :: int
  f_lflag :: nat
  f_altflag :: bool

type_synonym print_double = "u64 \<Rightarrow> int \<Rightarrow> int \<Rightarrow> u8 \<Rightarrow> u8 list"

definition put_number :: "u64 \<Rightarrow> u64 \<Rightarrow> fspec \<Rightarrow> bool \<Rightarrow> u8 list option" where
  "put_number num base sp upper = do {
     (out, w) \<leftarrow> printnum num base (f_width sp) (f_padc sp) upper;
     Some (out @ replicate (nat (f_width sp - w)) 32)
   }"

definition put_decimal :: "u64 \<Rightarrow> fspec \<Rightarrow> u8 list option" where
  "put_decimal num sp =
    (if sint num < 0 then do { out \<leftarrow> put_number (- num) 10 sp False; Some (45 # out) }
     else put_number num 10 sp False)"

partial_function (option) str_loop :: "bmem \<Rightarrow> u32 \<Rightarrow> int \<Rightarrow> int \<Rightarrow> bool \<Rightarrow> (u8 list \<times> int) option" where
  "str_loop m p precision width alt =
    (let ch = m p in
     if ch \<noteq> 0 \<and> (precision < 0 \<or> 0 \<le> precision - 1) then do {
       (out, w) \<leftarrow> str_loop m (p + 1) (if precision < 0 then precision else precision - 1) (width - 1) alt;
       Some ((if alt \<and> (ch < 32 \<or> 126 < ch) then 63 else ch) # out, w)
     }
     else Some ([], width))"

definition null_mem :: bmem where
  "null_mem a = (if unat a < 6 then chars ''(null)'' ! unat a else 0)"

definition put_str :: "bmem \<Rightarrow> u32 \<Rightarrow> fspec \<Rightarrow> u8 list option" where
  "put_str m p sp = do {
     let m = (if p = 0 then null_mem else m);
     let w = (if 0 < f_width sp \<and> f_padc sp \<noteq> 45
              then f_width sp - sint (strnlen m p (word_of_int (f_precision sp))) else f_width sp);
     let (pre, w) = (if 0 < f_width sp \<and> f_padc sp \<noteq> 45 then (replicate (nat w) (f_padc sp), min w 0) else ([], w));
     (out, w) \<leftarrow> str_loop m p (f_precision sp) w (f_altflag sp);
     Some (pre @ out @ replicate (nat w) 32)
   }"

definition fresh_spec :: fspec where
  "fresh_spec = \<lparr>f_padc = 32, f_width = - 1, f_precision = - 1, f_lflag = 0, f_altflag = False\<rparr>"

text \<open>An index below 0, which only the most negative number gives, reads outside the table.\<close>

definition put_error :: "u32 \<Rightarrow> u8 list option" where
  "put_error e =
    (let err = sint (if sint e < 0 then - e else e) in
     if MAXERROR \<le> err then map_option ((@) (chars ''error '')) (put_decimal (word_of_int err) fresh_spec)
     else if err < 0 then None
     else case error_string err of
         None \<Rightarrow> map_option ((@) (chars ''error '')) (put_decimal (word_of_int err) fresh_spec)
       | Some p \<Rightarrow> Some (chars p))"

text \<open>One conversion: the outer \<open>None\<close> is a fault, the inner one an unknown conversion character.\<close>

definition convert :: "bmem \<Rightarrow> print_double \<Rightarrow> fspec \<Rightarrow> u8 \<Rightarrow> u32 list \<Rightarrow> (u8 list \<times> u32 list) option option" where
  "convert m pd sp ch ap =
    (if ch = 99 then do { (c, ap) \<leftarrow> va32 ap; Some (Some ([ucast c], ap)) }
     else if ch = 101 then do { (e, ap) \<leftarrow> va32 ap; out \<leftarrow> put_error e; Some (Some (out, ap)) }
     else if ch = 115 then do { (p, ap) \<leftarrow> va32 ap; out \<leftarrow> put_str m p sp; Some (Some (out, ap)) }
     else if ch = 100 then do { (n, ap) \<leftarrow> getint ap (f_lflag sp); out \<leftarrow> put_decimal n sp; Some (Some (out, ap)) }
     else if ch = 117 then do { (n, ap) \<leftarrow> getuint ap (f_lflag sp); out \<leftarrow> put_number n 10 sp False; Some (Some (out, ap)) }
     else if ch = 111 then do { (n, ap) \<leftarrow> getuint ap (f_lflag sp); out \<leftarrow> put_number n 8 sp False; Some (Some (out, ap)) }
     else if ch = 112 then do {
       (p, ap) \<leftarrow> va32 ap; out \<leftarrow> put_number (ucast p) 16 sp False; Some (Some ([48, 120] @ out, ap)) }
     else if ch = 88 \<or> ch = 120 then do {
       (n, ap) \<leftarrow> getuint ap (f_lflag sp); out \<leftarrow> put_number n 16 sp (ch = 88); Some (Some (out, ap)) }
     else if ch = 102 then do { (d, ap) \<leftarrow> va64 ap; Some (Some (pd d (f_width sp) (f_precision sp) (f_padc sp), ap)) }
     else if ch = 37 then Some (Some ([37], ap))
     else Some None)"

definition set_field :: "int \<Rightarrow> fspec \<Rightarrow> fspec" where
  "set_field n sp = (if f_width sp < 0 then sp\<lparr>f_width := n, f_precision := - 1\<rparr> else sp\<lparr>f_precision := n\<rparr>)"

abbreviation is_digit :: "u8 \<Rightarrow> bool" where "is_digit c \<equiv> 48 \<le> c \<and> c \<le> 57"

definition field_value :: "u8 list \<Rightarrow> int" where
  "field_value ds = foldl (\<lambda>v d. v * 10 + uint d - 48) 0 ds"

subsection \<open>The formatter\<close>

text \<open>
  The part of the loop after a percent sign: \<open>after\<close> is what follows the sign, where an unknown
  sequence resumes. The result is the output, the rest of the format and the rest of the
  arguments.
\<close>

function escape :: "bmem \<Rightarrow> print_double \<Rightarrow> u8 list \<Rightarrow> fspec \<Rightarrow> u8 list \<Rightarrow> u32 list \<Rightarrow> (u8 list \<times> u8 list \<times> u32 list) option" where
  "escape m pd after sp [] ap = Some ([37], after, ap)"
| "escape m pd after sp (ch # fmt) ap =
    (if ch = 45 \<or> ch = 48 then escape m pd after (sp\<lparr>f_padc := ch\<rparr>) fmt ap
     else if is_digit ch then
       escape m pd after (set_field (field_value (ch # takeWhile is_digit fmt)) sp) (dropWhile is_digit fmt) ap
     else if ch = 42 then do { (n, ap) \<leftarrow> va32 ap; escape m pd after (set_field (sint n) sp) fmt ap }
     else if ch = 46 then escape m pd after (if f_width sp < 0 then sp\<lparr>f_width := 0\<rparr> else sp) fmt ap
     else if ch = 35 then escape m pd after (sp\<lparr>f_altflag := True\<rparr>) fmt ap
     else if ch = 108 then escape m pd after (sp\<lparr>f_lflag := f_lflag sp + 1\<rparr>) fmt ap
     else do {
       r \<leftarrow> convert m pd sp ch ap;
       case r of None \<Rightarrow> Some ([37], after, ap) | Some (out, ap) \<Rightarrow> Some (out, fmt, ap)
     })"
  by pat_completeness auto
termination
  by (relation "measure (\<lambda>(m, pd, after, sp, fmt, ap). length fmt)")
    (auto simp: less_Suc_eq_le length_dropWhile_le)

lemma escape_rest:
  "escape m pd after sp fmt ap = Some (out, rest, ap') \<Longrightarrow> length fmt \<le> length after \<Longrightarrow> length rest \<le> length after"
proof (induction m pd after sp fmt ap rule: escape.induct)
  case (2 m pd after sp ch fmt ap)
  have "length (dropWhile is_digit fmt) \<le> length fmt" by (rule length_dropWhile_le)
  with 2 show ?case by (auto split: if_splits option.splits bind_splits prod.splits)
qed auto

function vprintfmt :: "bmem \<Rightarrow> print_double \<Rightarrow> u8 list \<Rightarrow> u32 list \<Rightarrow> u8 list option" where
  "vprintfmt m pd [] ap = Some []"
| "vprintfmt m pd (ch # fmt) ap =
    (if ch \<noteq> 37 then map_option ((#) ch) (vprintfmt m pd fmt ap)
     else do {
       (out, rest, ap) \<leftarrow> escape m pd fmt fresh_spec fmt ap;
       more \<leftarrow> vprintfmt m pd rest ap;
       Some (out @ more)
     })"
  by pat_completeness auto
termination
  by (relation "measure (\<lambda>(m, pd, fmt, ap). length fmt)") (auto dest!: escape_rest)

subsection \<open>Printing into a buffer\<close>

record sprintbuf =
  sb_buf :: u32
  sb_ebuf :: u32
  sb_cnt :: nat

definition sprintputch :: "u8 \<Rightarrow> sprintbuf \<times> bmem \<Rightarrow> sprintbuf \<times> bmem" where
  "sprintputch ch = (\<lambda>(b, m).
    (let b = b\<lparr>sb_cnt := sb_cnt b + 1\<rparr> in
     if sb_buf b < sb_ebuf b then (b\<lparr>sb_buf := sb_buf b + 1\<rparr>, m(sb_buf b := ch)) else (b, m)))"

definition vsnprintf :: "print_double \<Rightarrow> u32 \<Rightarrow> u32 \<Rightarrow> u8 list \<Rightarrow> u32 list \<Rightarrow> bmem \<Rightarrow> (int \<times> bmem) option" where
  "vsnprintf pd buf n fmt ap m =
    (let b = \<lparr>sb_buf = buf, sb_ebuf = buf + n - 1, sb_cnt = 0\<rparr> in
     if buf = 0 \<or> sint n < 1 then Some (- 3, m)
     else do {
       out \<leftarrow> vprintfmt m pd fmt ap;
       let (b, m) = fold sprintputch out (b, m);
       Some (int (sb_cnt b), m(sb_buf b := 0))
     })"


subsection \<open>Printed numbers read back\<close>

definition hex_digit :: "u8 \<Rightarrow> bool" where
  "hex_digit c \<longleftrightarrow> c \<in> {48, 49, 50, 51, 52, 53, 54, 55, 56, 57, 65, 66, 67, 68, 69, 70, 97, 98, 99, 100, 101, 102}"

lemma hex_chars:
  "chars ''0123456789abcdef'' = [48, 49, 50, 51, 52, 53, 54, 55, 56, 57, 97, 98, 99, 100, 101, 102]"
  "chars ''0123456789ABCDEF'' = [48, 49, 50, 51, 52, 53, 54, 55, 56, 57, 65, 66, 67, 68, 69, 70]"
  by (simp_all add: chars_def)

lemma digit_chars:
  assumes "d < 16"
  shows "digit_of (digit_char up d) = Some (of_nat d)" "hex_digit (digit_char up d)"
proof -
  have d: "d \<in> {0, 1, 2, 3, 4, 5, 6, 7, 8, 9, 10, 11, 12, 13, 14, 15}" using assms by (auto simp: numeral_eq_Suc less_Suc_eq)
  show "digit_of (digit_char up d) = Some (of_nat d)"
    using d by (elim insertE) (simp_all add: digit_char_def hex_chars digit_of_def)
  show "hex_digit (digit_char up d)"
    using d by (elim insertE) (simp_all add: digit_char_def hex_chars hex_digit_def)
qed

lemma hex_digit_not: "hex_digit c \<Longrightarrow> c \<notin> {0, 9, 32, 43, 45, 120}"
  by (auto simp: hex_digit_def)

text \<open>\<open>reads base ds v\<close>: \<open>ds\<close> are digits below \<open>base\<close> whose value, modulo the word size, is \<open>v\<close>.\<close>

definition reads :: "u32 \<Rightarrow> u8 list \<Rightarrow> u32 \<Rightarrow> bool" where
  "reads base ds v \<longleftrightarrow> ds \<noteq> [] \<and> (\<forall>c \<in> set ds. hex_digit c \<and> (\<exists>d < unat base. digit_of c = Some (of_nat d))) \<and>
     foldl (\<lambda>v c. v * base + the (digit_of c)) 0 ds = v"

lemma printnum_reads:
  assumes "2 \<le> base" "base \<le> 16" "width \<le> 1"
  shows "\<exists>ds. printnum num base width padc up = Some (ds, int (length ds)) \<and> reads (ucast base) ds (of_nat (unat num))"
  using assms
proof (induction num base width padc up rule: printnum.induct)
  case (1 num base width padc up)
  have b: "unat (ucast base :: u32) = unat base" "unat base \<le> 16" "2 \<le> unat base" "\<not> (base < 2 \<or> 16 < base)"
    using 1(2,3) by (auto simp: word_le_nat_alt unsigned_ucast_eq take_bit_nat_eq_self not_less)
  let ?d = "unat (num mod base)"
  have d: "?d < unat base" using b(3) by (simp add: unat_mod)
  then have dc: "digit_of (digit_char up ?d) = Some (of_nat ?d)" "hex_digit (digit_char up ?d)"
    using digit_chars [of ?d up] b(2) by simp_all
  have ub: "ucast base = (of_nat (unat base) :: u32)" by (simp add: word_unat_eq_iff b(1))
  have dm: "unat (num div base) * unat base + ?d = unat num" by (simp add: unat_div unat_mod)
  show ?case
  proof (cases "base \<le> num")
    case True
    obtain ds where ds: "printnum (num div base) base (width - 1) padc up = Some (ds, int (length ds))"
      "reads (ucast base) ds (of_nat (unat (num div base)))" using 1(1) [OF b(4) True] 1(2-) by auto
    have "of_nat (unat (num div base)) * (ucast base :: u32) + of_nat ?d = of_nat (unat num)"
      by (simp only: ub of_nat_mult [symmetric] of_nat_add [symmetric] dm)
    then have "reads (ucast base) (ds @ [digit_char up ?d]) (of_nat (unat num))"
      using ds(2) dc d unfolding reads_def b(1) by (auto simp del: of_nat_unat)
    with ds(1) True b(4) show ?thesis by (simp add: printnum.simps [of num])
  next
    case False
    then have z: "unat (num mod base) = unat num" by (simp add: unat_mod word_le_nat_alt)
    have "reads (ucast base) [digit_char up ?d] (of_nat ?d)"
      using dc d by (auto simp: reads_def b(1))
    then have "reads (ucast base) [digit_char up ?d] (of_nat (unat num))" by (simp only: z)
    moreover have "pad width padc = []" using 1(4) by (simp add: pad_def)
    ultimately show ?thesis using False b(4) by (simp add: printnum.simps [of num])
  qed
qed

lemma sint_small:
  assumes "unat (x :: u32) < 2 ^ 31"
  shows "sint x = int (unat x)"
proof -
  have "nat (uint x) < 2 ^ 31" using assms by simp
  then have "uint x < 2 ^ 31" by (simp add: nat_less_iff del: nat_uint_eq)
  moreover have "- (2 ^ 31) \<le> uint x" using unsigned_greater_eq [of x, where ?'a = int] by (rule order_trans [rotated]) simp
  ultimately have "signed_take_bit 31 (uint x) = uint x" by (intro signed_take_bit_int_eq_self)
  then show ?thesis by (simp add: sint_uint)
qed

lemma strtol_digits_read:
  assumes "cstr m s ds" "\<forall>c \<in> set ds. \<exists>d < unat base. digit_of c = Some (of_nat d)" "unat base \<le> 16"
  shows "strtol_digits m base s v = Some (foldl (\<lambda>v c. v * base + the (digit_of c)) v ds, s + of_nat (length ds))"
  using assms
proof (induction ds arbitrary: s v)
  case Nil
  then show ?case by (simp add: strtol_digits.simps digit_of_def)
next
  case (Cons c ds)
  obtain d where d: "d < unat base" "digit_of c = Some (of_nat d)" using Cons.prems(2) by auto
  have "sint (of_nat d :: u32) = int d" "sint base = int (unat base)"
    using d(1) Cons.prems(3) sint_small [of "of_nat d"] sint_small [of base] by simp_all
  then have "\<not> sint base \<le> sint (of_nat d :: u32)" using d(1) by linarith
  then show ?case using Cons d by (simp add: strtol_digits.simps [of m base s] add.assoc)
qed


lemma strtol_number:
  assumes "cstr m s ds" "reads base ds v" "unat base \<le> 16" "base \<noteq> 0"
  shows "strtol m s base = Some (v, s + of_nat (length ds))"
    and "m (s - 1) = 45 \<Longrightarrow> strtol m (s - 1) base = Some (- v, s + of_nat (length ds))"
proof -
  obtain c cs where ds: "ds = c # cs" using assms(2) by (cases ds) (auto simp: reads_def)
  have c: "m s = c" "c \<notin> {0, 9, 32, 43, 45, 120}" using assms(1,2) hex_digit_not by (auto simp: ds reads_def)
  have "m (s + 1) = 0 \<or> hex_digit (m (s + 1))" using assms(1,2) by (cases cs) (auto simp: ds reads_def)
  then have n: "m (s + 1) \<noteq> 120" using hex_digit_not by force
  have b: "strtol_base m s base = (s, base)" using n assms(4) by (auto simp: strtol_base_def)
  have r: "strtol_digits m base s 0 = Some (v, s + of_nat (length ds))"
    using strtol_digits_read [OF assms(1) _ assms(3), of 0] assms(2) by (auto simp: reads_def)
  have k: "skip_blanks m s = Some s" "strtol_sign m s = (s, False)" using c by (auto simp: skip_blanks.simps strtol_sign_def)
  show "strtol m s base = Some (v, s + of_nat (length ds))" by (simp add: strtol_def k b r)
  assume "m (s - 1) = 45"
  then have "skip_blanks m (s - 1) = Some (s - 1)" "strtol_sign m (s - 1) = (s, True)"
    by (auto simp: skip_blanks.simps strtol_sign_def)
  then show "strtol m (s - 1) base = Some (- v, s + of_nat (length ds))" by (simp add: strtol_def b r)
qed

lemma put_number_reads:
  assumes "2 \<le> base" "base \<le> 16"
  shows "\<exists>ds. put_number num base fresh_spec up = Some ds \<and> reads (ucast base) ds (of_nat (unat num))"
  using printnum_reads [OF assms, of "- 1" num 32 up] by (auto simp: put_number_def fresh_spec_def)

lemma of_nat_unat_ucast: "of_nat (unat (x :: u64)) = (ucast x :: u32)"
  by (simp add: word_unat_eq_iff unsigned_ucast_eq unat_of_nat)

lemma take_minus: "take_bit 32 (- take_bit 64 y) = take_bit 32 (- y :: int)"
proof -
  have "take_bit 32 (- take_bit 64 y) = take_bit 32 (- take_bit 32 (take_bit 64 y))" by (simp only: take_bit_minus)
  also have "\<dots> = take_bit 32 (- y)" by (simp add: take_bit_take_bit take_bit_minus)
  finally show ?thesis .
qed

lemma ucast_minus: "(ucast (- y :: u64) :: u32) = - ucast y"
  by transfer (simp add: take_bit_minus take_minus)

lemma scast_back: "ucast (scast (x :: u32) :: u64) = x" "ucast (ucast x :: u64) = x"
  by (auto intro!: bit_word_eqI simp: bit_simps)

lemma one_conversion:
  "chars ''%d'' = [37, 100]" "chars ''%x'' = [37, 120]"
  "vprintfmt m pd [37, 100] [x] = put_decimal (scast x) fresh_spec"
  "vprintfmt m pd [37, 120] [x] = put_number (ucast x) 16 fresh_spec False"
  by (simp_all add: chars_def convert_def getint_def getuint_def fresh_spec_def)

definition reads_as :: "u32 \<Rightarrow> u8 list \<Rightarrow> u32 \<Rightarrow> bool" where
  "reads_as base out x \<longleftrightarrow> (\<forall>m s. cstr m s out \<longrightarrow> strtol m s base = Some (x, s + of_nat (length out)))"

lemma reads_as_number: "reads base ds x \<Longrightarrow> unat base \<le> 16 \<Longrightarrow> base \<noteq> 0 \<Longrightarrow> reads_as base ds x"
  unfolding reads_as_def using strtol_number(1) by blast

lemma reads_as_negative:
  assumes "reads base ds (- x)" "unat base \<le> 16" "base \<noteq> 0"
  shows "reads_as base (45 # ds) x"
  unfolding reads_as_def
proof (intro allI impI)
  fix m s
  assume "cstr m s (45 # ds)"
  then have "cstr m (s + 1) ds" "m (s + 1 - 1) = 45" by simp_all
  from strtol_number(2) [OF this(1) assms this(2)]
  show "strtol m s base = Some (x, s + of_nat (length (45 # ds)))" by (simp add: add.assoc)
qed

lemma hex_reads: "\<exists>out. put_number (ucast x) 16 fresh_spec False = Some out \<and> reads_as 16 out x"
  using put_number_reads [of 16 "ucast x" False] reads_as_number [of 16 _ x]
  by (auto simp: of_nat_unat_ucast scast_back)

lemma decimal_reads: "\<exists>out. put_decimal (scast x) fresh_spec = Some out \<and> reads_as 10 out x"
proof -
  let ?n = "scast x :: u64"
  obtain ds where neg: "put_number (- ?n) 10 fresh_spec False = Some ds" "reads 10 ds (- x)"
    using put_number_reads [of 10 "- ?n" False] by (auto simp: of_nat_unat_ucast ucast_minus scast_back)
  obtain ds' where pos: "put_number ?n 10 fresh_spec False = Some ds'" "reads 10 ds' x"
    using put_number_reads [of 10 "?n" False] by (auto simp: of_nat_unat_ucast scast_back)
  from neg pos show ?thesis
    using reads_as_negative [OF neg(2)] reads_as_number [OF pos(2)] by (simp add: put_decimal_def)
qed

text \<open>C32: a number printed with \<^verbatim>\<open>%d\<close> and read with \<^verbatim>\<open>strtol\<close> in base 10 is the number again, for every
  one of the 32-bit integers, the most negative one included; a number printed with \<^verbatim>\<open>%x\<close> is
  read back in base 16. The end pointer is the terminator of the printed string.\<close>

theorem print_strtol_roundtrip:
  "(\<exists>out. vprintfmt m pd (chars ''%d'') [x] = Some out \<and>
     (\<forall>m' s. cstr m' s out \<longrightarrow> strtol m' s 10 = Some (x, s + of_nat (length out)))) \<and>
   (\<exists>out. vprintfmt m pd (chars ''%x'') [x] = Some out \<and>
     (\<forall>m' s. cstr m' s out \<longrightarrow> strtol m' s 16 = Some (x, s + of_nat (length out))))"
  unfolding one_conversion using hex_reads [of x] decimal_reads [of x] unfolding reads_as_def by blast

lemma five_printed: "vprintfmt m pd (chars ''%d'') [5] = Some [53]"
  unfolding one_conversion
  by (simp add: put_decimal_def put_number_def printnum.simps pad_def fresh_spec_def digit_char_def chars_def)

definition five_mem :: bmem where
  "five_mem = (\<lambda>a. if a = 0x100 then 53 else 0)"

theorem print_strtol_roundtrip_witness:
  "vprintfmt (\<lambda>_. 0) (\<lambda>_ _ _ _. []) (chars ''%d'') [5] = Some [53] \<and> strtol five_mem 0x100 10 = Some (5, 0x101)"
proof -
  have "cstr five_mem 0x100 [53]" by (simp add: five_mem_def)
  with print_strtol_roundtrip [of "\<lambda>_. 0" "\<lambda>_ _ _ _. []" 5] show ?thesis using five_printed by fastforce
qed

subsection \<open>The buffer is never overrun\<close>

lemma sprint_fold:
  assumes "unat buf + k < 2 ^ 32" "c \<le> k"
  shows "fold sprintputch out (\<lparr>sb_buf = buf + of_nat c, sb_ebuf = buf + of_nat k, sb_cnt = j\<rparr>, m) =
    (\<lparr>sb_buf = buf + of_nat (min k (c + length out)), sb_ebuf = buf + of_nat k, sb_cnt = j + length out\<rparr>,
     \<lambda>a. if c \<le> unat (a - buf) \<and> unat (a - buf) < min k (c + length out) then out ! (unat (a - buf) - c) else m a)"
  using assms(2)
proof (induction out arbitrary: c j m)
  case Nil
  then show ?case by (auto simp: fun_eq_iff)
next
  case (Cons ch out)
  have lt: "buf + of_nat c < buf + of_nat k \<longleftrightarrow> c < k"
    using assms(1) Cons.prems by (simp add: word_less_nat_alt unat_add_no_wrap)
  show ?case
  proof (cases "c < k")
    case True
    have at: "a = buf + of_nat c \<longleftrightarrow> unat (a - buf) = c" for a
    proof -
      have "a = buf + of_nat c \<longleftrightarrow> a - buf = of_nat c" by (auto simp: algebra_simps)
      then show ?thesis using assms(1) Cons.prems by (simp add: word_unat_eq_iff)
    qed
    have "buf + of_nat c + 1 = buf + of_nat (Suc c)" by simp
    then have "sprintputch ch (\<lparr>sb_buf = buf + of_nat c, sb_ebuf = buf + of_nat k, sb_cnt = j\<rparr>, m) =
      (\<lparr>sb_buf = buf + of_nat (Suc c), sb_ebuf = buf + of_nat k, sb_cnt = Suc j\<rparr>,
       \<lambda>a. if unat (a - buf) = c then ch else m a)"
      using True lt by (auto simp: sprintputch_def Let_def fun_eq_iff at)
    then show ?thesis using True Cons.IH [of "Suc c" "Suc j" "\<lambda>a. if unat (a - buf) = c then ch else m a"]
      by (auto simp: fun_eq_iff nth_Cons' simp del: of_nat_Suc)
  next
    case False
    then show ?thesis using lt Cons.prems Cons.IH [of c "Suc j" m] by (auto simp: sprintputch_def Let_def fun_eq_iff)
  qed
qed

text \<open>C33: \<^verbatim>\<open>vsnprintf\<close> into a buffer of \<open>n\<close> bytes stores the first \<open>n - 1\<close> characters of the output, or all
  of them, and a terminator after them, touches no byte outside the buffer, and returns the
  length of the whole output.\<close>

theorem vsnprintf_in_bounds:
  assumes "vprintfmt m pd fmt ap = Some out" "0 < sint n" "buf \<noteq> 0" "unat buf + unat n < 2 ^ 32"
  shows "\<exists>m'. vsnprintf pd buf n fmt ap m = Some (int (length out), m') \<and>
    (\<forall>i < min (unat n - 1) (length out). m' (buf + of_nat i) = out ! i) \<and>
    m' (buf + of_nat (min (unat n - 1) (length out))) = 0 \<and>
    (\<forall>a. unat n \<le> unat (a - buf) \<longrightarrow> m' a = m a)"
proof -
  let ?k = "unat n - 1"
  have n: "0 < unat n" using assms(2) by (metis gr0I sint_0 unat_eq_0 less_irrefl)
  then have e: "buf + n - 1 = buf + of_nat ?k" by (simp add: of_nat_diff)
  have sm: "unat (of_nat i :: u32) = i" if "i \<le> ?k" for i using that assms(4) by simp
  define j where "j = min ?k (length out)"
  define m' where "m' = (\<lambda>a. if unat (a - buf) < j then out ! unat (a - buf) else m a)(buf + of_nat j := 0)"
  have at: "a = buf + of_nat j \<longleftrightarrow> unat (a - buf) = j" for a
  proof -
    have "a = buf + of_nat j \<longleftrightarrow> a - buf = of_nat j" by (auto simp: algebra_simps)
    then show ?thesis using sm [of j] by (simp add: word_unat_eq_iff j_def)
  qed
  have "vsnprintf pd buf n fmt ap m = Some (int (length out), m')"
    using sprint_fold [of buf ?k 0 out 0 m] assms n by (simp add: vsnprintf_def Let_def e j_def m'_def cong: if_cong)
  moreover have "m' (buf + of_nat i) = out ! i" if "i < j" for i
    using that sm [of i] by (simp add: m'_def at) (simp add: j_def)
  moreover have "m' (buf + of_nat j) = 0" by (simp add: m'_def)
  moreover have "m' a = m a" if "unat n \<le> unat (a - buf)" for a
  proof -
    have "j < unat (a - buf)" using that n by (auto simp: j_def)
    then show ?thesis by (simp add: m'_def at)
  qed
  ultimately show ?thesis unfolding j_def [symmetric] by blast
qed

theorem vsnprintf_in_bounds_witness:
  "\<exists>m'. vsnprintf (\<lambda>_ _ _ _. []) 0x100 2 [104, 105, 33] [] (\<lambda>_. 0) = Some (3, m') \<and> m' 0x100 = 104 \<and> m' 0x101 = 0"
proof -
  have "vprintfmt (\<lambda>_. 0) (\<lambda>_ _ _ _. []) [104, 105, 33] [] = Some [104, 105, 33]" by simp
  from vsnprintf_in_bounds [OF this, of 2 "0x100"] show ?thesis by auto
qed

end
