(* ===== verification/Lib_Div64.thy ===== *)
theory Lib_Div64
  imports Prelude
begin

text \<open>
  The 64-bit division that the compiler calls on the 32-bit target, \<^verbatim>\<open>lib/div64.c\<close>: shifts on the
  two halves of a word and long division by repeated subtraction of the largest shifted divider.
  The two loops are partial functions; that they end is part of what is shown. A division by
  zero is \<open>None\<close>, the exception of the processor.
\<close>

subsection \<open>Halves and shifts\<close>

definition lower :: "u64 \<Rightarrow> u32" where
  "lower x = ucast x"

definition higher :: "u64 \<Rightarrow> u32" where
  "higher x = ucast (drop_bit 32 x)"

definition overlay64 :: "u32 \<Rightarrow> u32 \<Rightarrow> u64" where
  "overlay64 hi lo = push_bit 32 (ucast hi) OR ucast lo"

definition ashldi3 :: "u64 \<Rightarrow> nat \<Rightarrow> u64" where
  "ashldi3 num sh =
    (if 32 \<le> sh then overlay64 (push_bit (sh - 32) (lower num)) 0
     else if sh = 0 then num
     else overlay64 (push_bit sh (higher num) OR drop_bit (32 - sh) (lower num)) (push_bit sh (lower num)))"

definition lshrdi3 :: "u64 \<Rightarrow> nat \<Rightarrow> u64" where
  "lshrdi3 num sh =
    (if 32 \<le> sh then overlay64 0 (drop_bit (sh - 32) (higher num))
     else if sh = 0 then num
     else overlay64 (drop_bit sh (higher num)) (drop_bit sh (lower num) OR push_bit (32 - sh) (higher num)))"

subsection \<open>Division\<close>

abbreviation (input) MAX_32BIT_UINT :: u64 where "MAX_32BIT_UINT \<equiv> push_bit 32 1 - 1"

partial_function (option) double_loop :: "u64 \<Rightarrow> u64 \<Rightarrow> nat \<Rightarrow> (u64 \<times> nat) option" where
  "double_loop limit locald shifts =
    (if locald \<le> limit then double_loop limit (locald + locald) (shifts + 1) else Some (locald, shifts))"

partial_function (option) div_loop :: "u64 \<Rightarrow> u64 \<Rightarrow> u64 \<Rightarrow> (u64 \<times> u64) option" where
  "div_loop divider dividend result =
    (if divider \<le> dividend then do {
       (locald, shifts) \<leftarrow> double_loop (lshrdi3 dividend 1) divider 0;
       div_loop divider (dividend - locald) (result OR ashldi3 1 shifts)
     }
     else Some (result, dividend))"

text \<open>The result and the remainder that is stored through the pointer.\<close>

definition divide64 :: "u64 \<Rightarrow> u64 \<Rightarrow> (u64 \<times> u64) option" where
  "divide64 dividend divider =
    (if divider = 0 then None
     else if dividend \<le> MAX_32BIT_UINT then
       (if MAX_32BIT_UINT < divider then Some (0, divider)
        else Some (ucast (lower dividend div lower divider), ucast (lower dividend mod lower divider)))
     else div_loop divider dividend 0)"

definition udivdi3 :: "u64 \<Rightarrow> u64 \<Rightarrow> u64 option" where
  "udivdi3 num den = map_option fst (divide64 num den)"

definition umoddi3 :: "u64 \<Rightarrow> u64 \<Rightarrow> u64 option" where
  "umoddi3 num den = map_option snd (divide64 num den)"

subsection \<open>The shifts\<close>

lemma bit_overlay: "bit (overlay64 hi lo) n \<longleftrightarrow> (if n < 32 then bit lo n else n < 64 \<and> bit hi (n - 32))"
  by (auto simp: overlay64_def bit_simps not_less dest: bit_imp_le_length)

lemma bit_halves: "bit (lower x) n \<longleftrightarrow> n < 32 \<and> bit x n" "bit (higher x) n \<longleftrightarrow> n < 32 \<and> bit x (n + 32)"
  by (auto simp: lower_def higher_def bit_simps add.commute)

lemma ashldi3_eq:
  assumes "sh < 64"
  shows "ashldi3 num sh = push_bit sh num"
proof (rule bit_word_eqI)
  fix n assume "n < LENGTH(64)"
  moreover have "sh \<le> n - 32 \<Longrightarrow> 32 \<le> n \<Longrightarrow> n - (32 + sh) + 32 = n - sh" by simp
  moreover have "\<not> sh \<le> n - 32 \<Longrightarrow> n - sh < 32" by simp
  ultimately show "bit (ashldi3 num sh) n = bit (push_bit sh num) n"
    using assms by (cases "n < 32"; cases "32 \<le> sh"; cases "sh \<le> n - 32")
      (auto simp: ashldi3_def bit_overlay bit_push_bit_iff bit_or_iff bit_drop_bit_eq bit_halves not_less)
qed

lemma lshrdi3_eq:
  assumes "sh < 64"
  shows "lshrdi3 num sh = drop_bit sh num"
proof (rule bit_word_eqI)
  fix n assume n: "n < LENGTH(64)"
  moreover have "bit num (n + sh) \<Longrightarrow> n + sh < 64" using bit_imp_le_length [of num "n + sh"] by simp
  ultimately show "bit (lshrdi3 num sh) n = bit (drop_bit sh num) n"
    using assms by (cases "n < 32"; cases "32 \<le> sh"; cases "n + sh < 32")
      (auto simp: lshrdi3_def bit_overlay bit_push_bit_iff bit_or_iff bit_drop_bit_eq bit_halves not_less add.commute)
qed

subsection \<open>The loops\<close>

lemma double_loop_ends:
  assumes "0 < unat den" "unat locald = unat den * 2 ^ k" "unat locald \<le> unat dividend"
  shows "\<exists>s l. double_loop (drop_bit 1 dividend) locald k = Some (l, s) \<and> unat l = unat den * 2 ^ s \<and>
    unat den * 2 ^ s \<le> unat dividend \<and> unat dividend < unat den * 2 ^ Suc s"
  using assms(2,3)
proof (induction "unat dividend - unat locald" arbitrary: locald k rule: less_induct)
  case less
  have u: "unat (drop_bit 1 dividend) = unat dividend div 2" by (simp add: drop_bit_eq_div unat_div)
  show ?case
  proof (cases "locald \<le> drop_bit 1 dividend")
    case True
    then have le: "2 * unat locald \<le> unat dividend" using u by (simp add: word_le_nat_alt)
    moreover have "unat dividend < 2 ^ 64" using unsigned_less [of dividend, where ?'a = nat] by simp
    ultimately have d: "unat (locald + locald) = 2 * unat locald" by (simp add: unat_word_ariths)
    have "0 < unat locald" using assms(1) less.prems(1) by simp
    then have "unat dividend - unat (locald + locald) < unat dividend - unat locald" using d le by simp
    from less.hyps [OF this, of "Suc k"] d le less.prems(1) True show ?thesis
      by (simp add: double_loop.simps [of _ locald])
  next
    case False
    then have "unat dividend < 2 * unat locald" using u by (simp add: word_le_nat_alt)
    then show ?thesis using False less.prems by (simp add: double_loop.simps [of _ locald])
  qed
qed

lemma or_shifted:
  assumes "2 ^ t dvd unat (r :: u64)" "s < t" "t \<le> 64"
  shows "unat (r OR push_bit s 1) = unat r + 2 ^ s"
proof -
  have "\<not> bit r n" if "n < t" for n
  proof -
    obtain k where "unat r = 2 ^ t * k" using assms(1) by (auto simp: dvd_def)
    then have "unat r = push_bit t k" by (simp add: push_bit_eq_mult mult.commute)
    then have "\<not> bit (unat r) n" using that by (simp add: bit_push_bit_iff)
    then show ?thesis by (simp add: bit_unsigned_iff)
  qed
  then have "r OR push_bit s 1 = r + push_bit s 1"
    using assms(2) by (subst disjunctive_add) (auto simp: bit_simps)
  moreover have p: "unat (push_bit s 1 :: u64) = 2 ^ s"
  proof -
    have "(2 :: nat) ^ s < 2 ^ 64" using assms(2,3) by (intro power_strict_increasing) auto
    then have "unat (of_nat (2 ^ s) :: u64) = 2 ^ s" by (simp only: unat_of_nat take_bit_nat_eq_self_iff) simp
    then show ?thesis by (simp add: push_bit_eq_mult)
  qed
  moreover have "unat r + 2 ^ s < 2 ^ 64"
  proof -
    obtain k where k: "unat r = 2 ^ t * k" using assms(1) by (auto simp: dvd_def)
    have "unat r < 2 ^ 64" using unsigned_less [of r, where ?'a = nat] by simp
    moreover have e: "(2 :: nat) ^ 64 = 2 ^ t * 2 ^ (64 - t)" using assms(3) by (simp flip: power_add)
    ultimately have "2 ^ t * k < 2 ^ t * 2 ^ (64 - t)" using k by simp
    then have "Suc k \<le> 2 ^ (64 - t)" by simp
    then have "2 ^ t * Suc k \<le> 2 ^ t * 2 ^ (64 - t)" by (rule mult_le_mono2)
    moreover have "(2 :: nat) ^ s < 2 ^ t" using assms(2) by simp
    ultimately show ?thesis unfolding k e mult_Suc_right by linarith
  qed
  ultimately show ?thesis by (simp add: unat_word_ariths)
qed

lemma div_loop_eq:
  assumes "0 < unat den"
  shows "unat dividend < unat den * 2 ^ t \<Longrightarrow> 2 ^ t dvd unat result \<Longrightarrow> t \<le> 64 \<Longrightarrow>
    \<exists>q r. div_loop den dividend result = Some (q, r) \<and>
      unat q = unat result + unat dividend div unat den \<and> unat r = unat dividend mod unat den"
proof (induction t arbitrary: dividend result rule: less_induct)
  case (less t)
  show ?case
  proof (cases "den \<le> dividend")
    case True
    obtain l s where ls: "double_loop (drop_bit 1 dividend) den 0 = Some (l, s)" "unat l = unat den * 2 ^ s"
      "unat den * 2 ^ s \<le> unat dividend" "unat dividend < unat den * 2 ^ Suc s"
      using double_loop_ends [OF assms, of den 0 dividend] True by (auto simp: word_le_nat_alt)
    have "unat den * 2 ^ s < unat den * 2 ^ t" using ls(3) less.prems(1) by linarith
    then have st: "s < t" by simp
    have d: "unat (dividend - l) = unat dividend - unat l" using ls(2,3) by (simp add: unat_sub word_le_nat_alt)
    have r: "unat (result OR push_bit s 1) = unat result + 2 ^ s" using or_shifted [OF less.prems(2) st less.prems(3)] .
    have "(2 :: nat) ^ s dvd 2 ^ t" using st by (simp add: le_imp_power_dvd)
    then have "2 ^ s dvd unat result" using less.prems(2) dvd_trans by blast
    then have dv: "2 ^ s dvd unat (result OR push_bit s 1)" using r by simp
    have lt: "unat (dividend - l) < unat den * 2 ^ s" using d ls(2-4) by simp
    have "s \<le> 64" using st less.prems(3) by simp
    from less.IH [OF st lt dv this] obtain q m where qm: "div_loop den (dividend - l) (result OR push_bit s 1) = Some (q, m)"
      "unat q = unat result + 2 ^ s + (unat dividend - unat l) div unat den" "unat m = (unat dividend - unat l) mod unat den"
      unfolding r d by blast
    have e: "unat dividend = (unat dividend - unat l) + 2 ^ s * unat den" using ls(2,3) by (simp add: mult.commute)
    have "unat dividend div unat den = (unat dividend - unat l) div unat den + 2 ^ s"
      "unat dividend mod unat den = (unat dividend - unat l) mod unat den"
      using assms by (subst e, simp)+
    then show ?thesis
      using qm True ls(1) st less.prems(3) by (simp add: div_loop.simps [of den dividend] lshrdi3_eq ashldi3_eq)
  next
    case False
    then show ?thesis by (simp add: div_loop.simps [of den dividend] word_le_nat_alt)
  qed
qed

text \<open>C39: 64-bit division ends and gives the quotient for every divisor but 0, through the 32-bit shortcut
  as well as through the loops. The remainder is right too, except that a dividend below 2^32 with
  a divisor of at least 2^32 gives back the divisor instead of the dividend.\<close>

theorem div64_correct:
  assumes "den \<noteq> 0"
  shows "udivdi3 num den = Some (num div den) \<and>
    umoddi3 num den = Some (if num \<le> MAX_32BIT_UINT \<and> MAX_32BIT_UINT < den then den else num mod den)"
proof -
  have den: "0 < unat den" using assms by (simp add: unat_gt_0)
  have m: "(push_bit 32 1 - 1 :: u64) = 0xFFFFFFFF" by (simp add: push_bit_eq_mult)
  have small: "unat (lower x) = unat x" if "x \<le> 0xFFFFFFFF" for x
    using that by (simp add: lower_def word_le_nat_alt unsigned_ucast_eq take_bit_nat_eq_self)
  show ?thesis
  proof (cases "num \<le> 0xFFFFFFFF")
    case True
    show ?thesis
    proof (cases "0xFFFFFFFF < den")
      case big: True
      then have "num div den = 0" using True by (simp add: word_unat_eq_iff unat_div word_le_nat_alt word_less_nat_alt)
      then show ?thesis using True big assms unfolding udivdi3_def umoddi3_def divide64_def m by simp
    next
      case False
      have "unat num < 2 ^ 64" using unsigned_less [of num, where ?'a = nat] by simp
      moreover have "unat num div unat den \<le> unat num" "unat num mod unat den \<le> unat num" by simp_all
      ultimately have "take_bit 64 (unat num div unat den) = unat num div unat den"
        "take_bit 64 (unat num mod unat den) = unat num mod unat den"
        by (simp_all only: take_bit_nat_eq_self_iff order.strict_trans1)
      then have "ucast (lower num div lower den) = num div den" "ucast (lower num mod lower den) = num mod den"
        using small [of num] small [of den] True False
        by (auto simp: word_unat_eq_iff unat_div unat_mod unsigned_ucast_eq not_less)
      then show ?thesis using True False assms unfolding udivdi3_def umoddi3_def divide64_def m by simp
    qed
  next
    case False
    have "unat num < unat den * 2 ^ 64"
      using den unsigned_less [of num, where ?'a = nat] by (simp add: less_le_trans)
    from div_loop_eq [OF den this, of 0] obtain q r where "div_loop den num 0 = Some (q, r)"
      "unat q = unat num div unat den" "unat r = unat num mod unat den" by auto
    then show ?thesis using False assms unfolding udivdi3_def umoddi3_def divide64_def m
      by (simp add: word_unat_eq_iff unat_div unat_mod)
  qed
qed

theorem div64_correct_witness:
  "udivdi3 0x100000007 5 = Some 0x33333334 \<and> umoddi3 0x100000007 5 = Some 3 \<and> umoddi3 7 0x100000000 = Some 0x100000000"
  using div64_correct [of 5 "0x100000007"] div64_correct [of "0x100000000" 7] by (simp add: push_bit_eq_mult)

end
