(* ===== verification/Boot_Mem.thy ===== *)
theory Boot_Mem
  imports User_Mem
begin

text \<open>
  Memory at boot: the page table that the entry code runs on, \<^verbatim>\<open>kernel/entry_pgdir.c\<close>, and
  \<open>mem_init\<close> of \<^verbatim>\<open>kernel/pmap.c\<close>, which builds the kernel's own directory out of the operations of
  \<open>Page_Alloc\<close> and \<open>Page_Table\<close>. The self-checks that \<^verbatim>\<open>mem_init\<close> runs in between assert properties of
  these operations and leave the state as it was; they are not modelled, nor the control register
  flags that it sets at the end.
\<close>

subsection \<open>The entry page table\<close>

text \<open>\<open>pt\<close> is the address that the linker gives to \<^verbatim>\<open>entry_pgtable\<close>.\<close>

definition entry_pgdir :: "u32 \<Rightarrow> nat \<Rightarrow> u32" where
  "entry_pgdir pt i =
    (if i = 0 then (pt - KERNBASE) + PTE_P
     else if i = unat (drop_bit 22 KERNBASE) then (pt - KERNBASE) + PTE_P + PTE_W
     else 0)"

definition entry_pgtable :: "nat \<Rightarrow> u32" where
  "entry_pgtable i = of_nat (i * 0x1000) OR PTE_P OR PTE_W"

subsection \<open>The kernel directory\<close>

abbreviation (input) NCPU :: nat where "NCPU \<equiv> 8"
abbreviation (input) sizeof_PageInfo :: u32 where "sizeof_PageInfo \<equiv> 8"
abbreviation (input) sizeof_Env :: u32 where "sizeof_Env \<equiv> 1472"

definition kstacktop :: "nat \<Rightarrow> u32" where
  "kstacktop i = KSTACKTOP - of_nat i * (KSTKSIZE + KSTKGAP)"

text \<open>\<open>kstacks i\<close> is the address of \<^verbatim>\<open>percpu_kstacks[i]\<close>.\<close>

definition mem_init_mp :: "(nat \<Rightarrow> u32) \<Rightarrow> kstate \<Rightarrow> kstate option" where
  "mem_init_mp kstacks s =
    mfold (\<lambda>i s. do {
      pa \<leftarrow> paddr (kstacks i);
      boot_map_region (kern_pgdir s) (kstacktop i - KSTKSIZE) KSTKSIZE pa PTE_W s
    }) [0..<NCPU] s"

definition mem_init :: "(nat \<Rightarrow> u8) \<Rightarrow> u32 \<Rightarrow> (nat \<Rightarrow> u32) \<Rightarrow> kstate \<Rightarrow> kstate option" where
  "mem_init rd kend kstacks s = do {
     let s = i386_detect_memory rd s;
     (dir, s) \<leftarrow> boot_alloc kend PGSIZE s;
     pa \<leftarrow> paddr dir;
     let s = mem_zero (unat (PGNUM pa)) (s\<lparr>kern_pgdir := unat (PGNUM pa)\<rparr>);
     let s = mem_set (kern_pgdir s) (unat (PDX UVPT)) (pa OR PTE_U OR PTE_P) s;
     (pages_va, s) \<leftarrow> boot_alloc kend (sizeof_PageInfo * of_nat (npages s)) s;
     let s = s\<lparr>pages := (\<lambda>_. \<lparr>pp_link = None, pp_ref = 0\<rparr>)\<rparr>;
     (envs_va, s) \<leftarrow> boot_alloc kend (sizeof_Env * 1024) s;
     s \<leftarrow> page_init kend s;
     pages_pa \<leftarrow> paddr pages_va;
     s \<leftarrow> boot_map_region (kern_pgdir s) UPAGES (sizeof_PageInfo * of_nat (npages s)) pages_pa PTE_U s;
     envs_pa \<leftarrow> paddr envs_va;
     s \<leftarrow> boot_map_region (kern_pgdir s) UENVS (sizeof_Env * 1024) envs_pa PTE_U s;
     s \<leftarrow> boot_map_region (kern_pgdir s) KERNBASE (0 - KERNBASE) 0 PTE_W s;
     s \<leftarrow> mem_init_mp kstacks s;
     Some (lcr3 (kern_pgdir s) s)
   }"

subsection \<open>What the tables map\<close>

text \<open>
  With the entry tables in memory and loaded, the processor translates the first four megabytes
  to themselves, read only, and four megabytes from \<^verbatim>\<open>KERNBASE\<close> to the same frames, writable.
\<close>

definition entry_loaded :: "nat \<Rightarrow> kstate \<Rightarrow> bool" where
  "entry_loaded t s \<longleftrightarrow> t < 1024 \<and> cr3 s \<noteq> t \<and> mem s (cr3 s) = entry_pgdir (KERNBASE + page2pa t) \<and> mem s t = entry_pgtable"

lemma page2pa_flags:
  assumes "fl < 4096"
  shows "page2pa t + fl = page2pa t OR fl"
  by (rule disjunctive_add) (auto simp: page2pa_def bit_push_bit_iff dest: bit_flags [OF assms])

lemma entry_pte: "entry_pgtable i = page2pa i OR 3"
  by (simp add: entry_pgtable_def page2pa_def push_bit_eq_mult mult.commute)

lemma low_flags: "has (page2pa t) PTE_P \<longleftrightarrow> False" "has (page2pa t) PTE_W \<longleftrightarrow> False"
  by (simp_all only: has_bit0 has_bit1 page2pa_def bit_push_bit_iff) simp_all

lemma entry_translates:
  assumes "entry_loaded t s" "unat x < 0x400000"
  shows "hw_walk s w (KERNBASE + x) = Some (unat (PGNUM x), unat (PGOFF x))"
    and "hw_walk s False x = Some (unat (PGNUM x), unat (PGOFF x))" "hw_walk s True x = None"
proof -
  let ?i = "unat x div 4096"
  have i: "?i < 1024" using assms(2) by (simp add: less_mult_imp_div_less)
  have u: "unat (KERNBASE + x) = unat x + 983040 * 4096" using assms(2) by (subst unat_add_no_wrap) (simp_all add: layout)
  have "(unat x + 983040 * 4096) div 4194304 = 960" using assms(2) by (intro div_nat_eqI) auto
  moreover have "(unat x + 983040 * 4096) div 4096 = ?i + 960 * 1024" by (subst div_mult_self1) simp_all
  moreover have "(?i + 960 * 1024) mod 1024 = ?i" using i by (subst mod_mult_self1) simp
  moreover have "(unat x + 983040 * 4096) mod 4096 = unat x mod 4096" by (rule mod_mult_self1)
  ultimately have hi: "unat (PDX (KERNBASE + x)) = 960" "unat (PTX (KERNBASE + x)) = ?i" "PGOFF (KERNBASE + x) = PGOFF x"
    by (simp_all only: unat_PDX unat_PTX u word_unat_eq_iff unat_PGOFF)
  have lo: "unat (PDX x) = 0" "unat (PTX x) = ?i" "unat (PGNUM x) = ?i"
    using assms(2) i by (simp_all add: unat_PDX unat_PTX unat_PGNUM)
  have d: "mem s (cr3 s) 0 = page2pa t OR 1" "mem s (cr3 s) 960 = page2pa t OR 3"
    using assms(1) page2pa_flags [of 1 t, symmetric] page2pa_flags [of 3 t, symmetric]
    by (simp_all add: entry_loaded_def entry_pgdir_def layout drop_bit_eq_div unat_div add.assoc)
  have f: "unat (PGNUM (page2pa t OR 1)) = t" "unat (PGNUM (page2pa t OR 3)) = t" "unat (PGNUM (page2pa ?i OR 3)) = ?i"
    using assms(1) i by (simp_all add: entry_loaded_def PGNUM_entry)
  have e: "mem s t ?i = page2pa ?i OR 3" using assms(1) by (simp add: entry_loaded_def entry_pte)
  have b: "has (1 :: u32) PTE_P" "\<not> has (1 :: u32) PTE_W" "has (3 :: u32) PTE_P" "has (3 :: u32) PTE_W" by (simp_all add: has_def)
  show "hw_walk s w (KERNBASE + x) = Some (unat (PGNUM x), unat (PGOFF x))"
    unfolding hw_walk_def hi d by (simp add: f e b hi lo)
  show "hw_walk s False x = Some (unat (PGNUM x), unat (PGOFF x))" "hw_walk s True x = None"
    unfolding hw_walk_def lo d by (simp_all add: f e b low_flags)
qed

text \<open>The stacks of two processors never meet: between them lies a gap that is not mapped.\<close>

lemma kstack_gap:
  assumes "i < j" "j < NCPU"
  shows "unat (kstacktop j) + unat KSTKGAP \<le> unat (kstacktop i - KSTKSIZE)"
proof -
  have t: "unat (kstacktop k) = 0xF0000000 - k * 0x10000" if "k < 8" for k
  proof -
    have "unat (of_nat k * 0x10000 :: u32) = k * 0x10000" using that by (simp add: unat_word_ariths)
    then show ?thesis using that unat_sub_no_wrap [of "of_nat k * 0x10000" "0xF0000000"]
      by (simp add: kstacktop_def layout)
  qed
  have "unat (kstacktop i - KSTKSIZE) = unat (kstacktop i) - 0x8000"
    using t [of i] assms by (subst unat_sub_no_wrap) (simp_all add: layout)
  then show ?thesis using t [of i] t [of j] assms by (simp add: layout)
qed

end
