(* ===== verification/Block_Cache.thy ===== *)
theory Block_Cache
  imports Lib_String
begin

text \<open>
  The block cache of the file server, \<^verbatim>\<open>fs/block_cache.c\<close>. The server maps disk block \<open>n\<close> at
  \<^verbatim>\<open>DISKMAP + n * BLKSIZE\<close> of its address space. A first access to a block faults, and the handler
  reads the block from the disk; writing sets the dirty bit of the page, and \<open>flush_block\<close> writes a
  dirty block back.

  The state \<open>fss\<close> holds the bytes of the server's memory, which pages of the region are mapped and
  which are dirty, and the contents of the disk by block and offset. \<open>ld8\<close> and \<open>st8\<close> are the accesses
  of the server's code, with the fault in front; a panic of the server is \<open>None\<close>. The disk driver is
  reliable: a read returns what the last write of the block stored. \<open>sys_page_alloc\<close> gives a zeroed
  page and \<open>sys_page_map\<close> of a page onto itself clears its dirty bit.
\<close>

abbreviation (input) BLKSIZE :: u32 where "BLKSIZE \<equiv> 0x1000"
abbreviation (input) DISKMAP :: u32 where "DISKMAP \<equiv> 0x10000000"
abbreviation (input) DISKSIZE :: u32 where "DISKSIZE \<equiv> 0xC0000000"

record fss =
  fmem :: bmem
  mapped :: "u32 \<Rightarrow> bool"
  dirty :: "u32 \<Rightarrow> bool"
  disk :: "u32 \<Rightarrow> u32 \<Rightarrow> u8"
  super_set :: bool
  bitmap_set :: bool

definition blk_of :: "u32 \<Rightarrow> u32" where
  "blk_of a = (a - DISKMAP) div BLKSIZE"

definition BLKNO2ADDR :: "u32 \<Rightarrow> u32" where
  "BLKNO2ADDR x = DISKMAP + x * BLKSIZE"

abbreviation (input) super_addr :: u32 where "super_addr \<equiv> 0x10001000"
abbreviation (input) bitmap_addr :: u32 where "bitmap_addr \<equiv> 0x10002000"

definition in_disk :: "u32 \<Rightarrow> bool" where
  "in_disk a \<longleftrightarrow> DISKMAP \<le> a \<and> a < DISKMAP + DISKSIZE"

subsection \<open>Pages of the region\<close>

definition map_zero :: "u32 \<Rightarrow> fss \<Rightarrow> fss" where
  "map_zero b s = s\<lparr>mapped := (mapped s)(b := True), dirty := (dirty s)(b := False),
     fmem := (\<lambda>a. if in_disk a \<and> blk_of a = b then 0 else fmem s a)\<rparr>"

definition load_block :: "u32 \<Rightarrow> fss \<Rightarrow> fss" where
  "load_block b s = s\<lparr>mapped := (mapped s)(b := True), dirty := (dirty s)(b := False),
     fmem := (\<lambda>a. if in_disk a \<and> blk_of a = b then disk s b (a - BLKNO2ADDR b) else fmem s a)\<rparr>"

definition page_unmap :: "u32 \<Rightarrow> fss \<Rightarrow> fss" where
  "page_unmap a s = (if in_disk a then s\<lparr>mapped := (mapped s)(blk_of a := False), dirty := (dirty s)(blk_of a := False)\<rparr> else s)"

definition raw32 :: "bmem \<Rightarrow> u32 \<Rightarrow> u32" where
  "raw32 m a = ucast (m a) OR push_bit 8 (ucast (m (a + 1))) OR push_bit 16 (ucast (m (a + 2))) OR push_bit 24 (ucast (m (a + 3)))"

definition put32 :: "u32 \<Rightarrow> u32 \<Rightarrow> bmem \<Rightarrow> bmem" where
  "put32 a v m = m(a := ucast v, a + 1 := ucast (drop_bit 8 v), a + 2 := ucast (drop_bit 16 v), a + 3 := ucast (drop_bit 24 v))"

text \<open>
  The fault handler. It reads the superblock once \<^verbatim>\<open>super\<close> is set and the bitmap once \<^verbatim>\<open>bitmap\<close> is
  set, and these reads can fault in turn.
\<close>

partial_function (option) bc_fault :: "u32 \<Rightarrow> fss \<Rightarrow> fss option" where
  "bc_fault a s =
    (if \<not> in_disk a then None
     else do {
       let b = blk_of a;
       s \<leftarrow> (if super_set s \<and> \<not> mapped s 1 then bc_fault super_addr s else Some s);
       if super_set s \<and> raw32 (fmem s) (super_addr + 4) \<le> b then None
       else do {
         let s = load_block b s;
         if bitmap_set s \<and> super_set s then do {
           let w = bitmap_addr + 4 * (b div 32);
           s \<leftarrow> (if mapped s (blk_of w) then Some s else bc_fault w s);
           if bit (raw32 (fmem s) w) (unat (b mod 32)) then None else Some s
         }
         else Some s
       }
     })"

definition touch :: "u32 \<Rightarrow> fss \<Rightarrow> fss option" where
  "touch a s = (if in_disk a \<and> \<not> mapped s (blk_of a) then bc_fault a s else Some s)"

definition ld8 :: "u32 \<Rightarrow> fss \<Rightarrow> (u8 \<times> fss) option" where
  "ld8 a s = do { s \<leftarrow> touch a s; Some (fmem s a, s) }"

definition ld32 :: "u32 \<Rightarrow> fss \<Rightarrow> (u32 \<times> fss) option" where
  "ld32 a s = do { s \<leftarrow> touch a s; Some (raw32 (fmem s) a, s) }"

definition mark_dirty :: "u32 \<Rightarrow> fss \<Rightarrow> fss" where
  "mark_dirty a s = (if in_disk a then s\<lparr>dirty := (dirty s)(blk_of a := True)\<rparr> else s)"

definition st8 :: "u32 \<Rightarrow> u8 \<Rightarrow> fss \<Rightarrow> fss option" where
  "st8 a v s = do { s \<leftarrow> touch a s; Some (mark_dirty a (s\<lparr>fmem := (fmem s)(a := v)\<rparr>)) }"

definition st32 :: "u32 \<Rightarrow> u32 \<Rightarrow> fss \<Rightarrow> fss option" where
  "st32 a v s = do { s \<leftarrow> touch a s; Some (mark_dirty a (s\<lparr>fmem := put32 a v (fmem s)\<rparr>)) }"


subsection \<open>Blocks\<close>

definition diskaddr :: "u32 \<Rightarrow> fss \<Rightarrow> (u32 \<times> fss) option" where
  "diskaddr b s =
    (if b = 0 then None
     else if super_set s then do {
       (n, s) \<leftarrow> ld32 (super_addr + 4) s;
       if n \<le> b then None else Some (BLKNO2ADDR b, s)
     }
     else Some (BLKNO2ADDR b, s))"

definition flush_block :: "u32 \<Rightarrow> fss \<Rightarrow> fss option" where
  "flush_block a s =
    (let b = blk_of a in
     if \<not> in_disk a then None
     else if \<not> mapped s b \<or> \<not> dirty s b then Some s
     else Some (s\<lparr>disk := (disk s)(b := (\<lambda>off. fmem s (BLKNO2ADDR b + off))), dirty := (dirty s)(b := False)\<rparr>))"

subsection \<open>Coherence\<close>

text \<open>A mapped block that is not dirty has the contents of the disk.\<close>

definition coherent :: "fss \<Rightarrow> bool" where
  "coherent s \<longleftrightarrow> (\<forall>a. in_disk a \<and> mapped s (blk_of a) \<and> \<not> dirty s (blk_of a) \<longrightarrow>
     fmem s a = disk s (blk_of a) (a - BLKNO2ADDR (blk_of a)))"

lemma coherent_store: "coherent s \<Longrightarrow> touch a s = Some s \<Longrightarrow> st8 a v s = Some s' \<Longrightarrow> coherent s'"
  by (auto simp: coherent_def st8_def mark_dirty_def split: if_splits)

lemma coherent_unmap: "coherent s \<Longrightarrow> coherent (page_unmap a s)"
  by (auto simp: coherent_def page_unmap_def)

lemma coherent_load: "coherent s \<Longrightarrow> coherent (load_block b s)"
  by (auto simp: coherent_def load_block_def)

lemma coherent_flush: "coherent s \<Longrightarrow> flush_block a s = Some s' \<Longrightarrow> coherent s'"
  by (auto simp: coherent_def flush_block_def Let_def split: if_splits)

text \<open>A block that is flushed, unmapped and read in again has the bytes it had.\<close>

lemma flush_reload:
  assumes "coherent s" "in_disk a" "mapped s (blk_of a)" "flush_block a s = Some s'"
  shows "fmem (load_block (blk_of a) (page_unmap a s')) a = fmem s a"
  using assms by (auto simp: coherent_def flush_block_def load_block_def page_unmap_def Let_def split: if_splits)

lemma touch_mapped [simp]: "mapped s (blk_of a) \<Longrightarrow> touch a s = Some s"
  by (simp add: touch_def)

subsection \<open>Words in memory\<close>

lemma word_bytes:
  "ucast (ucast v :: u8) OR push_bit 8 (ucast (ucast (drop_bit 8 v) :: u8)) OR
   push_bit 16 (ucast (ucast (drop_bit 16 v) :: u8)) OR push_bit 24 (ucast (ucast (drop_bit 24 v) :: u8)) = (v :: u32)"
proof (rule bit_word_eqI)
  fix n assume "n < LENGTH(32)"
  then consider "n < 8" | "8 \<le> n" "n < 16" | "16 \<le> n" "n < 24" | "24 \<le> n" "n < 32" by fastforce
  then show "bit ((ucast (ucast v :: u8) :: u32) OR push_bit 8 (ucast (ucast (drop_bit 8 v) :: u8)) OR
   push_bit 16 (ucast (ucast (drop_bit 16 v) :: u8)) OR push_bit 24 (ucast (ucast (drop_bit 24 v) :: u8))) n = bit v n"
    by cases (auto simp: bit_simps)
qed

lemma raw32_put32_same: "raw32 (put32 a v m) a = v"
proof -
  have "put32 a v m a = ucast v" "put32 a v m (a + 1) = ucast (drop_bit 8 v)"
    "put32 a v m (a + 2) = ucast (drop_bit 16 v)" "put32 a v m (a + 3) = ucast (drop_bit 24 v)"
    by (simp_all add: put32_def)
  then show ?thesis by (simp only: raw32_def word_bytes)
qed

lemma raw32_put32_other:
  assumes "unat a mod 4 = 0" "unat a' mod 4 = 0" "a \<noteq> a'"
  shows "raw32 (put32 a v m) a' = raw32 m a'"
proof -
  have off: "unat (x + of_nat j) = unat x + j" if "unat x mod 4 = 0" "j < 4" for x :: u32 and j
  proof -
    define k where "k = unat x div 4"
    have k: "unat x = 4 * k" using that(1) div_mult_mod_eq [of "unat x" 4] unfolding k_def by linarith
    then have "4 * k < 4 * 2 ^ 30" using unat_less_2p32 [of x] by simp
    then have "Suc k \<le> 2 ^ 30" by simp
    then have "unat x + j < 2 ^ 32" using k that(2) by simp
    then show ?thesis using that(2) by (subst unat_add_no_wrap) simp_all
  qed
  have ne: "a' + of_nat i \<noteq> a + of_nat j" if "i < 4" "j < 4" for i j
  proof
    assume "a' + of_nat i = a + of_nat j"
    then have e: "unat a' + i = unat a + j" using off [OF assms(2) that(1)] off [OF assms(1) that(2)] by simp
    then have "(unat a' + i) mod 4 = (unat a + j) mod 4" by simp
    then have "i = j" using that assms(1,2) by (simp add: mod_add_left_eq [symmetric])
    with e assms(3) show False by (simp add: word_unat_eq_iff)
  qed
  have "put32 a v m (a' + of_nat i) = m (a' + of_nat i)" if "i < 4" for i
    using ne [OF that, of 0] ne [OF that, of 1] ne [OF that, of 2] ne [OF that, of 3] by (simp add: put32_def)
  from this [of 0] this [of 1] this [of 2] this [of 3] show ?thesis by (simp add: raw32_def)
qed

end
