(* ===== verification/Fs.thy ===== *)
theory Fs
  imports Block_Cache
begin

text \<open>
  The file system of the file server, \<^verbatim>\<open>fs/fs.c\<close>, on top of the block cache: the bitmap of free
  blocks, the blocks of a file, directories, paths and the file operations. A \<^verbatim>\<open>struct File *\<close> is the
  address of the structure in the cache, and its fields are read and written there: the name at
  offset 0, the size at 128, the type at 132, the direct blocks at 136, the indirect block at 176.

  C strings that are arguments (paths, names) and the data buffers of reads and writes are lists of
  bytes. An operation that reports an error returns \<open>Inl\<close> of the negative code; \<open>None\<close> is a panic. The
  messages and the \<^verbatim>\<open>warn\<close> of a failed truncation print only.
\<close>

abbreviation (input) NDIRECT :: u32 where "NDIRECT \<equiv> 10"
abbreviation (input) NINDIRECT :: u32 where "NINDIRECT \<equiv> 1024"
abbreviation (input) f_size_at :: "u32 \<Rightarrow> u32" where "f_size_at f \<equiv> f + 128"
abbreviation (input) f_type_at :: "u32 \<Rightarrow> u32" where "f_type_at f \<equiv> f + 132"
abbreviation (input) f_direct_at :: "u32 \<Rightarrow> u32 \<Rightarrow> u32" where "f_direct_at f i \<equiv> f + 136 + 4 * i"
abbreviation (input) f_indirect_at :: "u32 \<Rightarrow> u32" where "f_indirect_at f \<equiv> f + 176"
abbreviation (input) s_nblocks_at :: u32 where "s_nblocks_at \<equiv> super_addr + 4"
abbreviation (input) s_root_at :: u32 where "s_root_at \<equiv> super_addr + 8"

subsection \<open>Super block and bitmap\<close>

definition check_super :: "fss \<Rightarrow> fss option" where
  "check_super s = do {
     (magic, s) \<leftarrow> ld32 super_addr s;
     if magic \<noteq> 0x58594f54 then None
     else do {
       (n, s) \<leftarrow> ld32 s_nblocks_at s;
       if n > DISKSIZE div BLKSIZE then None else Some s
     }
   }"

definition bitmap_word :: "u32 \<Rightarrow> u32" where
  "bitmap_word b = bitmap_addr + 4 * (b div 32)"

definition block_is_free :: "u32 \<Rightarrow> fss \<Rightarrow> (bool \<times> fss) option" where
  "block_is_free b s =
    (if \<not> super_set s then Some (False, s)
     else do {
       (n, s) \<leftarrow> ld32 s_nblocks_at s;
       if n \<le> b then Some (False, s)
       else do { (w, s) \<leftarrow> ld32 (bitmap_word b) s; Some (bit w (unat (b mod 32)), s) }
     })"

definition free_block :: "u32 \<Rightarrow> fss \<Rightarrow> fss option" where
  "free_block b s =
    (if b = 0 then None
     else do {
       (w, s) \<leftarrow> ld32 (bitmap_word b) s;
       s \<leftarrow> st32 (bitmap_word b) (w OR push_bit (unat (b mod 32)) 1) s;
       flush_block (bitmap_word b) s
     })"

fun alloc_scan :: "nat \<Rightarrow> u32 \<Rightarrow> fss \<Rightarrow> (u32 \<times> fss) option" where
  "alloc_scan 0 b s = Some (b, s)"
| "alloc_scan (Suc k) b s = do {
     (w, s) \<leftarrow> ld32 (bitmap_word b) s;
     if bit w (unat (b mod 32)) then Some (b, s) else alloc_scan k (b + 1) s
   }"

definition alloc_block :: "fss \<Rightarrow> ((int + u32) \<times> fss) option" where
  "alloc_block s = do {
     (n, s) \<leftarrow> ld32 s_nblocks_at s;
     (b, s) \<leftarrow> alloc_scan (unat n) 0 s;
     if b = n then Some (Inl (- 9), s)
     else do {
       (w, s) \<leftarrow> ld32 (bitmap_word b) s;
       s \<leftarrow> st32 (bitmap_word b) (w AND NOT (push_bit (unat (b mod 32)) 1)) s;
       s \<leftarrow> flush_block (bitmap_word b) s;
       Some (Inr b, s)
     }
   }"

fun check_used :: "nat list \<Rightarrow> fss \<Rightarrow> fss option" where
  "check_used [] s = Some s"
| "check_used (b # bs) s = do {
     (free, s) \<leftarrow> block_is_free (of_nat b) s;
     if free then None else check_used bs s
   }"

text \<open>There is a bitmap block for every 32768 blocks of the disk.\<close>

definition check_bitmap :: "fss \<Rightarrow> fss option" where
  "check_bitmap s = do {
     (n, s) \<leftarrow> ld32 s_nblocks_at s;
     s \<leftarrow> check_used (map (\<lambda>i. 2 + i) [0..<(unat n + 32767) div 32768]) s;
     check_used [0, 1] s
   }"

definition fs_init :: "fss \<Rightarrow> fss option" where
  "fs_init s = do {
     (_, s) \<leftarrow> diskaddr 1 s;
     s \<leftarrow> check_super (s\<lparr>super_set := True\<rparr>);
     (_, s) \<leftarrow> diskaddr 2 s;
     check_bitmap (s\<lparr>bitmap_set := True\<rparr>)
   }"

subsection \<open>Blocks of a file\<close>

text \<open>A page that the server allocates at the place of a block and clears.\<close>

definition fresh_block :: "u32 \<Rightarrow> fss \<Rightarrow> fss" where
  "fresh_block b s = mark_dirty (BLKNO2ADDR b) (map_zero b s)"

definition file_block_walk :: "u32 \<Rightarrow> u32 \<Rightarrow> bool \<Rightarrow> fss \<Rightarrow> ((int + u32) \<times> fss) option" where
  "file_block_walk f filebno alloc s =
    (if NINDIRECT + NDIRECT \<le> filebno then Some (Inl (- 3), s)
     else if filebno < NDIRECT then Some (Inr (f_direct_at f filebno), s)
     else do {
       (ind, s) \<leftarrow> ld32 (f_indirect_at f) s;
       if ind = 0 then
         if \<not> alloc then Some (Inl (- 11), s)
         else do {
           (r, s) \<leftarrow> alloc_block s;
           case r of
             Inl _ \<Rightarrow> Some (Inl (- 9), s)
           | Inr b \<Rightarrow> do {
               s \<leftarrow> st32 (f_indirect_at f) b s;
               Some (Inr (BLKNO2ADDR b + 4 * (filebno - NDIRECT)), fresh_block b s)
             }
         }
       else Some (Inr (BLKNO2ADDR ind + 4 * (filebno - NDIRECT)), s)
     })"

definition file_get_block :: "u32 \<Rightarrow> u32 \<Rightarrow> fss \<Rightarrow> ((int + u32) \<times> fss) option" where
  "file_get_block f filebno s = do {
     (r, s) \<leftarrow> file_block_walk f filebno True s;
     case r of
       Inl e \<Rightarrow> Some (Inl e, s)
     | Inr p \<Rightarrow> do {
         (d, s) \<leftarrow> ld32 p s;
         if d \<noteq> 0 then Some (Inr (BLKNO2ADDR d), s)
         else do {
           (r, s) \<leftarrow> alloc_block s;
           case r of
             Inl e \<Rightarrow> Some (Inl e, s)
           | Inr b \<Rightarrow> do {
               s \<leftarrow> st32 p b s;
               Some (Inr (BLKNO2ADDR b), map_zero b s)
             }
         }
       }
   }"

subsection \<open>Directories\<close>

text \<open>The test \<^verbatim>\<open>strcmp(f_name, name) == 0\<close>.\<close>

fun name_is :: "u32 \<Rightarrow> u8 list \<Rightarrow> fss \<Rightarrow> (bool \<times> fss) option" where
  "name_is a [] s = do { (c, s) \<leftarrow> ld8 a s; Some (c = 0, s) }"
| "name_is a (x # xs) s = do { (c, s) \<leftarrow> ld8 a s; if c = x then name_is (a + 1) xs s else Some (False, s) }"

text \<open>The first of the 16 files of a block, from the \<open>j\<close>-th on, that a test accepts.\<close>

fun scan_files :: "(u32 \<Rightarrow> fss \<Rightarrow> (bool \<times> fss) option) \<Rightarrow> nat \<Rightarrow> u32 \<Rightarrow> fss \<Rightarrow> (u32 option \<times> fss) option" where
  "scan_files p 0 fp s = Some (None, s)"
| "scan_files p (Suc k) fp s = do {
     (hit, s) \<leftarrow> p fp s;
     if hit then Some (Some fp, s) else scan_files p k (fp + 256) s
   }"

fun scan_blocks :: "(u32 \<Rightarrow> fss \<Rightarrow> (bool \<times> fss) option) \<Rightarrow> nat \<Rightarrow> u32 \<Rightarrow> u32 \<Rightarrow> fss \<Rightarrow> ((int + u32 option) \<times> fss) option" where
  "scan_blocks p 0 dir i s = Some (Inr None, s)"
| "scan_blocks p (Suc k) dir i s = do {
     (r, s) \<leftarrow> file_get_block dir i s;
     case r of
       Inl e \<Rightarrow> Some (Inl e, s)
     | Inr blk \<Rightarrow> do {
         (hit, s) \<leftarrow> scan_files p 16 blk s;
         case hit of Some fp \<Rightarrow> Some (Inr (Some fp), s) | None \<Rightarrow> scan_blocks p k dir (i + 1) s
       }
   }"

definition dir_blocks :: "u32 \<Rightarrow> fss \<Rightarrow> (u32 \<times> fss) option" where
  "dir_blocks dir s = do {
     (sz, s) \<leftarrow> ld32 (f_size_at dir) s;
     if sz mod BLKSIZE \<noteq> 0 then None else Some (word_of_int (sint sz div 4096), s)
   }"

definition dir_lookup :: "u32 \<Rightarrow> u8 list \<Rightarrow> fss \<Rightarrow> ((int + u32) \<times> fss) option" where
  "dir_lookup dir nm s = do {
     (n, s) \<leftarrow> dir_blocks dir s;
     (r, s) \<leftarrow> scan_blocks (\<lambda>fp. name_is fp nm) (unat n) dir 0 s;
     Some (case r of Inl e \<Rightarrow> Inl e | Inr None \<Rightarrow> Inl (- 11) | Inr (Some fp) \<Rightarrow> Inr fp, s)
   }"

definition dir_alloc_file :: "u32 \<Rightarrow> fss \<Rightarrow> ((int + u32) \<times> fss) option" where
  "dir_alloc_file dir s = do {
     (n, s) \<leftarrow> dir_blocks dir s;
     (r, s) \<leftarrow> scan_blocks (\<lambda>fp. name_is fp []) (unat n) dir 0 s;
     case r of
       Inl e \<Rightarrow> Some (Inl e, s)
     | Inr (Some fp) \<Rightarrow> Some (Inr fp, s)
     | Inr None \<Rightarrow> do {
         (sz, s) \<leftarrow> ld32 (f_size_at dir) s;
         s \<leftarrow> st32 (f_size_at dir) (sz + BLKSIZE) s;
         file_get_block dir n s
       }
   }"


subsection \<open>Paths\<close>

abbreviation (input) is_slash :: "u8 \<Rightarrow> bool" where "is_slash c \<equiv> c = 47"

definition skip_slash :: "u8 list \<Rightarrow> u8 list" where
  "skip_slash p = dropWhile is_slash p"

text \<open>
  The outcome of a walk: the return value, the directory and the file that it stores (null when
  \<open>None\<close>), and the last element of the path when only that is missing.
\<close>

record walk_result =
  w_ret :: int
  w_dir :: "u32 option"
  w_file :: "u32 option"
  w_last :: "u8 list"

definition walk_fail :: "int \<Rightarrow> walk_result" where
  "walk_fail e = \<lparr>w_ret = e, w_dir = None, w_file = None, w_last = []\<rparr>"

lemma skip_shorter: "length (skip_slash (dropWhile (\<lambda>c. \<not> is_slash c) (c # p))) < Suc (length p)"
proof (cases "is_slash c")
  case True
  then show ?thesis by (simp add: skip_slash_def less_Suc_eq_le length_dropWhile_le)
next
  case False
  have "length (skip_slash (dropWhile (\<lambda>c. \<not> is_slash c) p)) \<le> length (dropWhile (\<lambda>c. \<not> is_slash c) p)"
    unfolding skip_slash_def by (rule length_dropWhile_le)
  also have "\<dots> \<le> length p" by (rule length_dropWhile_le)
  finally show ?thesis using False by simp
qed

function walk_loop :: "u8 list \<Rightarrow> u32 option \<Rightarrow> u32 \<Rightarrow> fss \<Rightarrow> (walk_result \<times> fss) option" where
  "walk_loop [] dir file s = Some (\<lparr>w_ret = 0, w_dir = dir, w_file = Some file, w_last = []\<rparr>, s)"
| "walk_loop (c # p) dir file s =
    (let nm = takeWhile (\<lambda>c. \<not> is_slash c) (c # p);
         rest = skip_slash (dropWhile (\<lambda>c. \<not> is_slash c) (c # p)) in
     if 128 \<le> length nm then Some (walk_fail (- 12), s)
     else do {
       (t, s) \<leftarrow> ld32 (f_type_at file) s;
       if t \<noteq> 1 then Some (walk_fail (- 11), s)
       else do {
         (r, s) \<leftarrow> dir_lookup file nm s;
         case r of
           Inl e \<Rightarrow> Some (if e = - 11 \<and> rest = []
                          then \<lparr>w_ret = e, w_dir = Some file, w_file = None, w_last = nm\<rparr> else walk_fail e, s)
         | Inr f \<Rightarrow> walk_loop rest (Some file) f s
       }
     })"
  by pat_completeness auto
termination
  by (relation "measure (\<lambda>(p, dir, file, s). length p)") (auto simp: skip_shorter simp del: dropWhile.simps)

definition walk_path :: "u8 list \<Rightarrow> fss \<Rightarrow> (walk_result \<times> fss) option" where
  "walk_path path s =
    (case path of
       [] \<Rightarrow> Some (walk_fail (- 12), s)
     | c # _ \<Rightarrow> if \<not> is_slash c then Some (walk_fail (- 12), s) else walk_loop (skip_slash path) None s_root_at s)"

subsection \<open>Flushing\<close>

text \<open>Positions are signed, and C division rounds towards zero.\<close>

definition pos_block :: "u32 \<Rightarrow> u32" where
  "pos_block pos = word_of_int (if sint pos < 0 then - ((- sint pos) div 4096) else sint pos div 4096)"

definition pos_off :: "u32 \<Rightarrow> u32" where
  "pos_off pos = pos - pos_block pos * BLKSIZE"

fun flush_loop :: "nat \<Rightarrow> u32 \<Rightarrow> u32 \<Rightarrow> fss \<Rightarrow> fss option" where
  "flush_loop 0 f i s = Some s"
| "flush_loop (Suc k) f i s = do {
     (r, s) \<leftarrow> file_block_walk f i False s;
     s \<leftarrow> (case r of
        Inl _ \<Rightarrow> Some s
      | Inr p \<Rightarrow> do {
          (d, s) \<leftarrow> ld32 p s;
          if d = 0 then Some s else do { (a, s) \<leftarrow> diskaddr d s; flush_block a s }
        });
     flush_loop k f (i + 1) s
   }"

text \<open>\<^verbatim>\<open>(size + BLKSIZE - 1) / BLKSIZE\<close>.\<close>

definition blocks_of :: "u32 \<Rightarrow> u32" where
  "blocks_of sz = pos_block (sz + BLKSIZE - 1)"

definition file_flush :: "u32 \<Rightarrow> fss \<Rightarrow> fss option" where
  "file_flush f s = do {
     (sz, s) \<leftarrow> ld32 (f_size_at f) s;
     s \<leftarrow> flush_loop (nat (sint (blocks_of sz))) f 0 s;
     s \<leftarrow> flush_block f s;
     (ind, s) \<leftarrow> ld32 (f_indirect_at f) s;
     if ind = 0 then Some s else do { (a, s) \<leftarrow> diskaddr ind s; flush_block a s }
   }"

fun unmap_slots :: "nat \<Rightarrow> u32 \<Rightarrow> fss \<Rightarrow> fss option" where
  "unmap_slots 0 p s = Some s"
| "unmap_slots (Suc k) p s = do {
     (d, s) \<leftarrow> ld32 p s;
     unmap_slots k (p + 4) (page_unmap (BLKNO2ADDR d) s)
   }"

definition file_close :: "u32 \<Rightarrow> fss \<Rightarrow> fss option" where
  "file_close f s = do {
     s \<leftarrow> unmap_slots 10 (f_direct_at f 0) s;
     (ind, s) \<leftarrow> ld32 (f_indirect_at f) s;
     s \<leftarrow> (if ind = 0 then Some s
        else do {
          (sz, s) \<leftarrow> ld32 (f_size_at f) s;
          s \<leftarrow> unmap_slots (nat (sint sz div 4096 - 10)) (BLKNO2ADDR ind) s;
          Some (page_unmap (BLKNO2ADDR ind) s)
        });
     Some (page_unmap f s)
   }"

subsection \<open>Creation\<close>

fun put_bytes :: "u32 \<Rightarrow> u8 list \<Rightarrow> fss \<Rightarrow> fss option" where
  "put_bytes a [] s = Some s"
| "put_bytes a (b # bs) s = do { s \<leftarrow> st8 a b s; put_bytes (a + 1) bs s }"

definition file_create :: "u8 list \<Rightarrow> bool \<Rightarrow> fss \<Rightarrow> ((int + u32) \<times> fss) option" where
  "file_create path is_dir s = do {
     (w, s) \<leftarrow> walk_path path s;
     if w_ret w = 0 then Some (Inl (- 13), s)
     else case (if w_ret w = - 11 then w_dir w else None) of
         None \<Rightarrow> Some (Inl (w_ret w), s)
       | Some dir \<Rightarrow> do {
           (r, s) \<leftarrow> dir_alloc_file dir s;
           case r of
             Inl e \<Rightarrow> Some (Inl e, s)
           | Inr f \<Rightarrow> do {
               s \<leftarrow> put_bytes f (w_last w @ [0]) s;
               s \<leftarrow> st32 (f_type_at f) (if is_dir then 1 else 0) s;
               s \<leftarrow> file_flush dir s;
               Some (Inr f, s)
             }
         }
   }"

definition file_open :: "u8 list \<Rightarrow> fss \<Rightarrow> ((int + u32) \<times> fss) option" where
  "file_open path s = do {
     (w, s) \<leftarrow> walk_path path s;
     Some (case w_file w of Some f \<Rightarrow> Inr f | None \<Rightarrow> Inl (w_ret w), s)
   }"

subsection \<open>Truncation\<close>

definition file_free_block :: "u32 \<Rightarrow> u32 \<Rightarrow> fss \<Rightarrow> fss option" where
  "file_free_block f filebno s = do {
     (r, s) \<leftarrow> file_block_walk f filebno False s;
     case r of
       Inl _ \<Rightarrow> Some s
     | Inr p \<Rightarrow> do {
         (d, s) \<leftarrow> ld32 p s;
         if d = 0 then Some s
         else do {
           s \<leftarrow> free_block d s;
           st32 p 0 (page_unmap (BLKNO2ADDR d) s)
         }
       }
   }"

definition file_truncate_blocks :: "u32 \<Rightarrow> u32 \<Rightarrow> fss \<Rightarrow> fss option" where
  "file_truncate_blocks f newsize s = do {
     (sz, s) \<leftarrow> ld32 (f_size_at f) s;
     s \<leftarrow> mfold (\<lambda>b. file_free_block f (of_nat b)) [unat (blocks_of newsize)..<unat (blocks_of sz)] s;
     (ind, s) \<leftarrow> ld32 (f_indirect_at f) s;
     if blocks_of newsize \<le> 10 \<and> ind \<noteq> 0 then do {
       s \<leftarrow> free_block ind s;
       st32 (f_indirect_at f) 0 (page_unmap (BLKNO2ADDR ind) s)
     }
     else Some s
   }"

definition file_set_size :: "u32 \<Rightarrow> u32 \<Rightarrow> fss \<Rightarrow> fss option" where
  "file_set_size f newsize s = do {
     (sz, s) \<leftarrow> ld32 (f_size_at f) s;
     s \<leftarrow> (if sint newsize < sint sz then file_truncate_blocks f newsize s else Some s);
     s \<leftarrow> st32 (f_size_at f) newsize s;
     flush_block f s
   }"

definition file_remove :: "u32 \<Rightarrow> fss \<Rightarrow> fss option" where
  "file_remove f s = do {
     s \<leftarrow> file_truncate_blocks f 0 s;
     s \<leftarrow> put_bytes f (replicate 256 0) s;
     flush_block f s
   }"

definition fs_sync :: "fss \<Rightarrow> fss option" where
  "fs_sync s = do {
     (n, s) \<leftarrow> ld32 s_nblocks_at s;
     mfold (\<lambda>b s. do { (a, s) \<leftarrow> diskaddr (of_nat b) s; flush_block a s }) [1..<unat n] s
   }"

subsection \<open>Reading and writing\<close>

fun get_bytes :: "u32 \<Rightarrow> nat \<Rightarrow> fss \<Rightarrow> (u8 list \<times> fss) option" where
  "get_bytes a 0 s = Some ([], s)"
| "get_bytes a (Suc n) s = do { (b, s) \<leftarrow> ld8 a s; (bs, s) \<leftarrow> get_bytes (a + 1) n s; Some (b # bs, s) }"

partial_function (option) read_loop :: "u32 \<Rightarrow> u32 \<Rightarrow> u32 \<Rightarrow> u8 list \<Rightarrow> fss \<Rightarrow> ((int + u8 list) \<times> fss) option" where
  "read_loop f pos stop buf s =
    (if pos < stop then do {
       (r, s) \<leftarrow> file_get_block f (pos_block pos) s;
       case r of
         Inl e \<Rightarrow> Some (Inl e, s)
       | Inr blk \<Rightarrow> do {
           let bn = min (BLKSIZE - pos_off pos) (stop - pos);
           (bs, s) \<leftarrow> get_bytes (blk + pos_off pos) (unat bn) s;
           read_loop f (pos + bn) stop (buf @ bs) s
         }
     }
     else Some (Inr buf, s))"

definition file_read :: "u32 \<Rightarrow> u32 \<Rightarrow> u32 \<Rightarrow> fss \<Rightarrow> ((int + u8 list) \<times> fss) option" where
  "file_read f count off s = do {
     (sz, s) \<leftarrow> ld32 (f_size_at f) s;
     if sint sz \<le> sint off then Some (Inr [], s)
     else read_loop f off (off + min count (sz - off)) [] s
   }"

partial_function (option) write_loop :: "u32 \<Rightarrow> u32 \<Rightarrow> u32 \<Rightarrow> u8 list \<Rightarrow> fss \<Rightarrow> ((int + unit) \<times> fss) option" where
  "write_loop f pos stop buf s =
    (if pos < stop then do {
       (r, s) \<leftarrow> file_get_block f (pos_block pos) s;
       case r of
         Inl e \<Rightarrow> Some (Inl e, s)
       | Inr blk \<Rightarrow> do {
           let bn = min (BLKSIZE - pos_off pos) (stop - pos);
           s \<leftarrow> put_bytes (blk + pos_off pos) (take (unat bn) buf) s;
           write_loop f (pos + bn) stop (drop (unat bn) buf) s
         }
     }
     else Some (Inr (), s))"

text \<open>The count is the length of the data; the result is an error or the count.\<close>

definition file_write :: "u32 \<Rightarrow> u8 list \<Rightarrow> u32 \<Rightarrow> fss \<Rightarrow> (int \<times> fss) option" where
  "file_write f buf off s = do {
     let count = of_nat (length buf);
     (sz, s) \<leftarrow> ld32 (f_size_at f) s;
     s \<leftarrow> (if off + count > sz then file_set_size f (off + count) s else Some s);
     (r, s) \<leftarrow> write_loop f off (off + count) buf s;
     Some (case r of Inl e \<Rightarrow> e | Inr _ \<Rightarrow> int (length buf), s)
   }"

subsection \<open>Renaming and listing\<close>

definition file_rename :: "u32 \<Rightarrow> u32 \<Rightarrow> fss \<Rightarrow> (int \<times> fss) option" where
  "file_rename dir src s = do {
     (t, s) \<leftarrow> ld32 (f_type_at dir) s;
     if t \<noteq> 1 then Some (- 3, s)
     else do {
       (r, s) \<leftarrow> dir_alloc_file dir s;
       case r of
         Inl e \<Rightarrow> Some (e, s)
       | Inr new \<Rightarrow> do {
           (bs, s) \<leftarrow> get_bytes src 256 s;
           s \<leftarrow> put_bytes new bs s;
           s \<leftarrow> flush_block new s;
           s \<leftarrow> put_bytes src (replicate 256 0) s;
           s \<leftarrow> flush_block src s;
           Some (0, s)
         }
     }
   }"

text \<open>The handler of a listing runs on every file of a block with a name, until it fails.\<close>

fun each_file :: "(u32 \<Rightarrow> fss \<Rightarrow> (int \<times> fss) option) \<Rightarrow> nat \<Rightarrow> u32 \<Rightarrow> fss \<Rightarrow> (int \<times> fss) option" where
  "each_file h 0 fp s = Some (0, s)"
| "each_file h (Suc k) fp s = do {
     (c, s) \<leftarrow> ld8 fp s;
     if c = 0 then each_file h k (fp + 256) s
     else do {
       (r, s) \<leftarrow> h fp s;
       if r < 0 then Some (r, s) else each_file h k (fp + 256) s
     }
   }"

text \<open>
  Beyond the direct blocks the code takes the entry of the indirect block, which is a block
  number, as an address.
\<close>

fun each_block :: "(u32 \<Rightarrow> fss \<Rightarrow> (int \<times> fss) option) \<Rightarrow> nat \<Rightarrow> u32 \<Rightarrow> u32 \<Rightarrow> fss \<Rightarrow> (int \<times> fss) option" where
  "each_block h 0 dir i s = Some (0, s)"
| "each_block h (Suc k) dir i s = do {
     (fp, s) \<leftarrow> (if i < NDIRECT then do { (d, s) \<leftarrow> ld32 (f_direct_at dir i) s; Some (BLKNO2ADDR d, s) }
       else do { (ind, s) \<leftarrow> ld32 (f_indirect_at dir) s; ld32 (BLKNO2ADDR ind + 4 * (i - NDIRECT)) s });
     (r, s) \<leftarrow> each_file h 16 fp s;
     if r < 0 then Some (r, s) else each_block h k dir (i + 1) s
   }"

definition file_dir_each_file :: "(u32 \<Rightarrow> fss \<Rightarrow> (int \<times> fss) option) \<Rightarrow> u32 \<Rightarrow> fss \<Rightarrow> (int \<times> fss) option" where
  "file_dir_each_file h dir s = do {
     (t, s) \<leftarrow> ld32 (f_type_at dir) s;
     if t \<noteq> 1 then Some (- 3, s)
     else do {
       (sz, s) \<leftarrow> ld32 (f_size_at dir) s;
       each_block h (nat (sint sz div 4096)) dir 0 s
     }
   }"


subsection \<open>The bitmap\<close>

definition free_in :: "fss \<Rightarrow> u32 \<Rightarrow> bool" where
  "free_in s b \<longleftrightarrow> bit (raw32 (fmem s) (bitmap_word b)) (unat (b mod 32))"

lemma unat_bitmap_word:
  assumes "unat b < 2 ^ 20"
  shows "unat (bitmap_word b) = 0x10002000 + 4 * (unat b div 32)"
proof -
  have "unat b div 32 < 2 ^ 15" using assms by (simp add: less_mult_imp_div_less)
  moreover have "unat (b div 32) = unat b div 32" by (simp add: unat_div)
  ultimately have "unat (4 * (b div 32)) = 4 * (unat b div 32)" by (simp add: unat_word_ariths)
  then show ?thesis
    using \<open>unat b div 32 < 2 ^ 15\<close> unfolding bitmap_word_def by (subst unat_add_no_wrap) simp_all
qed

lemma bitmap_in_disk: "unat b < 2 ^ 20 \<Longrightarrow> in_disk (bitmap_word b)"
proof -
  assume b: "unat b < 2 ^ 20"
  have "unat b div 32 < 2 ^ 15" using b by (simp add: less_mult_imp_div_less)
  then show ?thesis using unat_bitmap_word [OF b] by (simp add: in_disk_def word_le_nat_alt word_less_nat_alt)
qed

lemma bitmap_word_eq:
  assumes "unat b < 2 ^ 20" "unat c < 2 ^ 20"
  shows "bitmap_word b = bitmap_word c \<longleftrightarrow> unat b div 32 = unat c div 32"
  using unat_bitmap_word [OF assms(1)] unat_bitmap_word [OF assms(2)] by (simp add: word_unat_eq_iff)

lemma bitmap_aligned: "unat b < 2 ^ 20 \<Longrightarrow> unat (bitmap_word b) mod 4 = 0"
proof -
  assume "unat b < 2 ^ 20"
  then have "unat (bitmap_word b) = 4 * (0x4000800 + unat b div 32)" using unat_bitmap_word by simp
  then show ?thesis by simp
qed

lemma alloc_scan_first:
  assumes "\<And>i. i0 \<le> i \<Longrightarrow> i < i0 + k \<Longrightarrow> mapped s (blk_of (bitmap_word (of_nat i)))"
  shows "\<exists>j. alloc_scan k (of_nat i0) s = Some (of_nat j, s) \<and> i0 \<le> j \<and> j \<le> i0 + k \<and>
    (\<forall>i. i0 \<le> i \<and> i < j \<longrightarrow> \<not> free_in s (of_nat i)) \<and> (j < i0 + k \<longrightarrow> free_in s (of_nat j))"
  using assms
proof (induction k arbitrary: i0)
  case 0
  then show ?case by (intro exI [of _ i0]) auto
next
  case (Suc k)
  have l: "ld32 (bitmap_word (of_nat i0)) s = Some (raw32 (fmem s) (bitmap_word (of_nat i0)), s)"
    using Suc.prems [of i0] by (simp add: ld32_def)
  show ?case
  proof (cases "free_in s (of_nat i0)")
    case True
    then show ?thesis using l by (intro exI [of _ i0]) (auto simp: free_in_def)
  next
    case False
    have "\<exists>j. alloc_scan k (of_nat (Suc i0)) s = Some (of_nat j, s) \<and> Suc i0 \<le> j \<and> j \<le> Suc i0 + k \<and>
      (\<forall>i. Suc i0 \<le> i \<and> i < j \<longrightarrow> \<not> free_in s (of_nat i)) \<and> (j < Suc i0 + k \<longrightarrow> free_in s (of_nat j))"
      using Suc.prems by (intro Suc.IH) simp
    then obtain j where j: "alloc_scan k (of_nat (Suc i0)) s = Some (of_nat j, s)" "Suc i0 \<le> j" "j \<le> Suc i0 + k"
      "\<forall>i. Suc i0 \<le> i \<and> i < j \<longrightarrow> \<not> free_in s (of_nat i)" "j < Suc i0 + k \<longrightarrow> free_in s (of_nat j)" by blast
    have "alloc_scan (Suc k) (of_nat i0) s = Some (of_nat j, s)"
      using l False j(1) by (simp add: free_in_def add.commute)
    moreover have "\<not> free_in s (of_nat i)" if "i0 \<le> i" "i < j" for i
      using False j(4) that by (cases "i = i0") auto
    ultimately show ?thesis using j(2,3,5) by (intro exI [of _ j]) auto
  qed
qed

text \<open>The bitmap after a word of it is stored, and that the store reaches the disk.\<close>

lemma bit_clear: "bit (w AND NOT (push_bit k 1) :: u32) n \<longleftrightarrow> bit w n \<and> n \<noteq> k"
  by (auto simp: bit_simps dest: bit_imp_le_length)

lemma clear_bit:
  assumes b: "unat b < 2 ^ 20" and s': "fmem s' = put32 (bitmap_word b)
      (raw32 (fmem s) (bitmap_word b) AND NOT (push_bit (unat (b mod 32)) 1)) (fmem s)"
  shows "\<not> free_in s' b" "unat c < 2 ^ 20 \<Longrightarrow> c \<noteq> b \<Longrightarrow> free_in s' c = free_in s c"
    "raw32 (fmem s') s_nblocks_at = raw32 (fmem s) s_nblocks_at"
proof -
  show "\<not> free_in s' b" unfolding free_in_def s' raw32_put32_same bit_clear by simp
  show "free_in s' c = free_in s c" if c: "unat c < 2 ^ 20" "c \<noteq> b"
  proof (cases "bitmap_word c = bitmap_word b")
    case True
    then have "unat c div 32 = unat b div 32" using bitmap_word_eq [OF c(1) b] by simp
    then have "unat c mod 32 \<noteq> unat b mod 32" using c(2) by (metis div_mult_mod_eq word_unat_eq_iff)
    then have "unat (c mod 32) \<noteq> unat (b mod 32)" by (simp add: unat_mod)
    then show ?thesis unfolding free_in_def s' True raw32_put32_same bit_clear by simp
  next
    case False
    then show ?thesis using raw32_put32_other [OF bitmap_aligned [OF b] bitmap_aligned [OF c(1)]]
      by (simp add: free_in_def s')
  qed
  have "bitmap_word b \<noteq> s_nblocks_at" using unat_bitmap_word [OF b] by (auto simp: word_unat_eq_iff)
  then show "raw32 (fmem s') s_nblocks_at = raw32 (fmem s) s_nblocks_at"
    using raw32_put32_other [OF bitmap_aligned [OF b], of s_nblocks_at] by (simp add: s')
qed

text \<open>C40: \<^verbatim>\<open>alloc_block\<close> on a disk whose super block and bitmap are in the cache. When every block is in
  use it reports that and changes nothing. Otherwise it returns the lowest free block, which is then
  marked in use, no other block changes its mark, and the changed bitmap block is on the disk.\<close>

theorem alloc_block_correct:
  assumes "mapped s 1" "raw32 (fmem s) s_nblocks_at = n" "unat n < 2 ^ 20"
    and "\<And>b. b < n \<Longrightarrow> mapped s (blk_of (bitmap_word b))"
  shows "(\<forall>b < n. \<not> free_in s b) \<and> alloc_block s = Some (Inl (- 9), s) \<or>
    (\<exists>b s'. b < n \<and> free_in s b \<and> (\<forall>c < b. \<not> free_in s c) \<and> alloc_block s = Some (Inr b, s') \<and> \<not> free_in s' b \<and>
       (\<forall>c < n. c \<noteq> b \<longrightarrow> free_in s' c = free_in s c) \<and> raw32 (fmem s') s_nblocks_at = n \<and>
       (let k = blk_of (bitmap_word b) in \<forall>off. disk s' k off = fmem s' (BLKNO2ADDR k + off)))"
proof -
  have n: "ld32 s_nblocks_at s = Some (n, s)" using assms(1,2) by (simp add: ld32_def touch_def blk_of_def)
  have small: "unat (of_nat i :: u32) = i" if "i \<le> unat n" for i using that assms(3) by simp
  have "mapped s (blk_of (bitmap_word (of_nat i)))" if "i < unat n" for i
    using assms(4) [of "of_nat i"] small [of i] that by (simp add: word_less_nat_alt)
  then obtain j where j: "alloc_scan (unat n) 0 s = Some (of_nat j, s)" "j \<le> unat n"
    "\<And>i. i < j \<Longrightarrow> \<not> free_in s (of_nat i)" "j < unat n \<longrightarrow> free_in s (of_nat j)"
    using alloc_scan_first [of 0 "unat n" s] by auto
  have low: "\<not> free_in s c" if "unat c < j" for c using j(3) [OF that] by simp
  show ?thesis
  proof (cases "j = unat n")
    case True
    then have "\<forall>b < n. \<not> free_in s b" using low by (simp add: word_less_nat_alt)
    moreover have "alloc_block s = Some (Inl (- 9), s)" using True unfolding alloc_block_def n by (simp add: j(1))
    ultimately show ?thesis by blast
  next
    case False
    let ?b = "of_nat j :: u32"
    have u: "unat ?b = j" "unat ?b < 2 ^ 20" "?b < n" "?b \<noteq> n"
      using False j(2) assms(3) small [of j] by (auto simp: word_less_nat_alt)
    let ?m = "put32 (bitmap_word ?b) (raw32 (fmem s) (bitmap_word ?b) AND NOT (push_bit (unat (?b mod 32)) 1)) (fmem s)"
    let ?k = "blk_of (bitmap_word ?b)"
    let ?s = "s\<lparr>fmem := ?m, dirty := (dirty s)(?k := False), disk := (disk s)(?k := (\<lambda>off. ?m (BLKNO2ADDR ?k + off)))\<rparr>"
    have mp: "mapped s ?k" "in_disk (bitmap_word ?b)" using assms(4) u(2,3) bitmap_in_disk by simp_all
    have r: "alloc_block s = Some (Inr ?b, ?s)"
      using mp u(4) unfolding alloc_block_def n
      by (simp add: j(1) ld32_def st32_def flush_block_def mark_dirty_def Let_def fun_upd_def)
    have "c \<noteq> ?b \<Longrightarrow> free_in ?s c = free_in s c" if "c < n" for c
      using that assms(3) clear_bit(2) [OF u(2), of ?s s c] by (simp add: word_less_nat_alt)
    moreover have "\<not> free_in ?s ?b" using clear_bit(1) [OF u(2), of ?s s] by simp
    moreover have "raw32 (fmem ?s) s_nblocks_at = n" using clear_bit(3) [OF u(2), of ?s s] assms(2) by simp
    moreover have "free_in s ?b" "\<forall>c < ?b. \<not> free_in s c"
      using j(2,4) False low u(1) by (auto simp: word_less_nat_alt)
    ultimately show ?thesis using r u(3) by (intro disjI2 exI [of _ ?b] exI [of _ ?s]) (auto simp: Let_def)
  qed
qed


definition fs_demo :: fss where
  "fs_demo = \<lparr>fmem = (\<lambda>a. if a = 0x10001004 then 5 else if a = 0x10002000 then 0x10 else 0), mapped = (\<lambda>_. True),
     dirty = (\<lambda>_. False), disk = (\<lambda>_ _. 0), super_set = True, bitmap_set = True\<rparr>"

lemma fs_demo_free: "b < 5 \<Longrightarrow> free_in fs_demo b \<longleftrightarrow> b = 4"
proof -
  assume b: "b < 5"
  then have u: "unat b < 5" by (simp add: word_less_nat_alt)
  have "raw32 (fmem fs_demo) 0x10002000 = push_bit 4 1"
    by (simp add: fs_demo_def raw32_def push_bit_eq_mult)
  moreover have "bitmap_word b = 0x10002000" using unat_bitmap_word [of b] u by (intro word_unat_eqI) simp
  moreover have "unat (b mod 32) = unat b" using u by (simp add: unat_mod)
  ultimately have "free_in fs_demo b \<longleftrightarrow> bit (push_bit 4 1 :: u32) (unat b)" by (simp only: free_in_def)
  also have "\<dots> \<longleftrightarrow> unat b = 4" by (simp only: bit_push_bit_iff bit_1_iff) (use u in auto)
  finally show ?thesis by (simp add: word_unat_eq_iff)
qed

theorem alloc_block_correct_witness:
  "\<exists>s'. alloc_block fs_demo = Some (Inr 4, s') \<and> \<not> free_in s' 4 \<and> raw32 (fmem s') 0x10001004 = 5"
proof -
  have n: "raw32 (fmem fs_demo) s_nblocks_at = 5" by (simp add: fs_demo_def raw32_def)
  have "free_in fs_demo 4" using fs_demo_free [of 4] by simp
  with alloc_block_correct [OF _ n] obtain b s' where "b < 5" "free_in fs_demo b" "alloc_block fs_demo = Some (Inr b, s')"
    "\<not> free_in s' b" "raw32 (fmem s') s_nblocks_at = 5" by (fastforce simp: fs_demo_def)
  then show ?thesis using fs_demo_free [of b] by auto
qed

end
