(* ===== verification/Spec2Isabelle.thy ===== *)
theory Spec2Isabelle
  imports User_Syscall Lib_Print Lib_Div64 Boot_Mem Fs
begin

text \<open>
  A verification development for toynix, a small multiprocessor kernel for the i386 with its user
  library, file server and shell.

  \<^bold>\<open>The program.\<close> The kernel owns the physical pages, the page tables, a table of 1024 environments
  (its processes), a big kernel lock, a scheduler, the console and a network card. User programs
  enter it through traps; system calls let an environment map pages, create other environments and
  exchange messages and pages. The library in \<^verbatim>\<open>lib\<close> gives the programs stubs for these calls, string
  routines and formatted output; a file server in \<^verbatim>\<open>fs\<close> keeps the disk.

  \<^bold>\<open>How code is modelled.\<close> A C function is a function of the same name on an explicit state. The state
  of the kernel is the record \<open>kstate\<close> of \<open>Kernel_State\<close>, whose fields are the globals of the C files;
  \<open>machine\<close> of \<open>Syscall\<close> adds the console, the network card and the clock. Integers are words of their
  C width, so arithmetic wraps. Pointers into arrays of structures are indices; memory is a map from
  page frames and word offsets to words, and the page tables live in it, so that the page-table code
  works on the memory it maps. A panic, a failed assertion or a kernel fault is the value \<open>None\<close> of the
  option monad. A function that does not return to its caller (\<open>env_run\<close>, \<open>sched_yield\<close>) ends with a
  value of \<open>ctl\<close> that says what the processor does next. Loops are structural recursion on a count, or
  functions with a termination proof, or partial functions where the C loop need not end.

  \<^bold>\<open>The theories.\<close>

  \<^item> \<open>Prelude\<close>: integer types, guards, loops over lists, facts on words.
  \<^item> \<open>Mmu\<close> (\<^verbatim>\<open>include/mmu.h\<close>, \<^verbatim>\<open>include/memlayout.h\<close>, \<^verbatim>\<open>include/types.h\<close>): address arithmetic and its bit-level facts.
  \<^item> \<open>Kernel_State\<close> (\<^verbatim>\<open>include/env.h\<close>, \<^verbatim>\<open>include/trap.h\<close>, \<^verbatim>\<open>include/kernel/cpu.h\<close>): the records of the state.
  \<^item> \<open>Page_Alloc\<close> (\<^verbatim>\<open>kernel/pmap.c\<close>): \<open>boot_alloc\<close>, \<open>page_init\<close>, \<open>page_alloc\<close>, \<open>page_free\<close>, \<open>page_decref\<close>. The free
    list is a proper list of unreferenced pages; allocation is last in, first out; reserved pages never
    get on it. The locale \<open>page_store\<close> is the contract of the allocator.
  \<^item> \<open>Page_Table\<close> (\<^verbatim>\<open>kernel/pmap.c\<close>): \<open>pgdir_walk\<close>, \<open>page_lookup\<close>, \<open>page_insert\<close>, \<open>page_remove\<close>. The invariant
    \<open>vm_inv\<close> ties page tables, reference counts and the free list together; insertion and removal refine
    the update of one entry of the abstract map \<open>look\<close>. The locale \<open>address_space\<close> is their contract.
  \<^item> \<open>User_Mem\<close> (\<^verbatim>\<open>kernel/pmap.c\<close>): \<open>user_mem_check\<close>, and the accesses of the kernel through user addresses.
  \<^item> \<open>Spinlock\<close> (\<^verbatim>\<open>kernel/spinlock.c\<close>): the lock operations and a step relation of any number of processors;
    mutual exclusion by rule induction, and progress.
  \<^item> \<open>Env\<close> and \<open>Env_Free\<close> (\<^verbatim>\<open>kernel/env.c\<close>, \<^verbatim>\<open>kernel/vm.c\<close>): creation, loading and destruction of environments and
    the kernel invariant \<open>kinv\<close>; freeing an environment gives back every page it held.
  \<^item> \<open>Sched\<close> (\<^verbatim>\<open>kernel/sched.c\<close>): the choice of the environment that ran least, and that none starves.
  \<^item> \<open>Console\<close> (\<^verbatim>\<open>kernel/console.c\<close>): the input ring, the keyboard decoder, the serial port and the display.
  \<^item> \<open>Devices\<close> (\<^verbatim>\<open>kernel/time.c\<close>, \<^verbatim>\<open>kernel/e1000.c\<close>): the tick counter and the descriptor rings.
  \<^item> \<open>Syscall\<close> and \<open>Syscall_Mem\<close> (\<^verbatim>\<open>kernel/syscall.c\<close>): every system call and the dispatcher; what the memory and
    message calls do to the address spaces.
  \<^item> \<open>Trap\<close> (\<^verbatim>\<open>kernel/trap.c\<close>, \<^verbatim>\<open>kernel/trapentry.S\<close>): gates, page-fault upcalls, the dispatcher and the return
    to user mode.
  \<^item> \<open>User_Syscall\<close> (\<^verbatim>\<open>lib/syscall.c\<close>): the stubs and that they reach their handlers.
  \<^item> \<open>Lib_String\<close>, \<open>Lib_Print\<close> (\<^verbatim>\<open>lib/string.c\<close>, \<^verbatim>\<open>lib/printfmt.c\<close>): string routines and formatted output.
  \<^item> \<open>Lib_Div64\<close> (\<^verbatim>\<open>lib/div64.c\<close>): 64-bit division on 32-bit halves, with termination of its loops.
  \<^item> \<open>Boot_Mem\<close> (\<^verbatim>\<open>kernel/entry_pgdir.c\<close>, \<^verbatim>\<open>kernel/pmap.c\<close>): the entry page table and what it maps, and \<open>mem_init\<close>.
  \<^item> \<open>Block_Cache\<close> (\<^verbatim>\<open>fs/block_cache.c\<close>): the server's window on the disk, with faults, dirty pages and
    flushing; a clean mapped block agrees with the disk, and a flushed block reads back.
  \<^item> \<open>Fs\<close> (\<^verbatim>\<open>fs/fs.c\<close>): bitmap, blocks of files, directories, paths and file operations on that window;
    what block allocation does.

  \<^bold>\<open>Bounds.\<close> No fuel is used. Lists in memory are followed for at most as many steps as the table that
  holds them has entries, which the invariants show to be enough; the scheduler's loop visits each of
  the 1024 slots once, as the code does. Run counts of environments are taken modulo nothing: the
  no-starvation theorem bounds the number of turns by the sum of the gaps between them.

  \<^bold>\<open>Not modelled.\<close> The boot loader, the assembly entry code, the programming of the interrupt controllers,
  the PCI bus, the disk controller and the card's registers are pure I/O. The messages that the kernel
  prints, the monitor and the symbol tables have no effect on the state. The network server runs the
  vendored lwIP stack, and its threads switch stacks in assembly. Floating point (\<^verbatim>\<open>%f\<close> and the formatted
  text of \<^verbatim>\<open>sys_debug_info\<close>) is an argument of the definitions that use it. The user programs are clients
  of the library. Interrupts are taken only between operations of the kernel, which runs with
  interrupts disabled under one lock.
\<close>

end
